theory Spec2Isabelle
  imports Main "HOL-Library.Sublist"
begin

section \<open>Errors\<close>

text \<open>
  The exceptions that the modelled code paths of \<^verbatim>\<open>eval/ddpm/generate_recons.py\<close> can
  raise. Every raise is a value \<open>Inl e\<close> of a result type \<open>py_error + 'a\<close>.
\<close>

datatype py_error =
  AttributeError | ValueError | RuntimeError | IndexError | MisconfigurationException

section \<open>The config parser\<close>

text \<open>
  \<^verbatim>\<open>
  def __parse_str(s):
      split = s.split(",")
      return [int(s) for s in split if s != "" and s is not None]
  \<close>
  Strings are ASCII character lists. \<open>split_on\<close> is \<^verbatim>\<open>str.split(sep)\<close> for a
  one-character separator: it cuts at every separator and always returns at least one
  token (the empty string gives one empty token).
\<close>

fun split_on :: "char \<Rightarrow> string \<Rightarrow> string list" where
  "split_on sep [] = [[]]"
| "split_on sep (c # cs) =
     (if c = sep then [] # split_on sep cs
      else (case split_on sep cs of
              [] \<Rightarrow> [[c]]
            | t # ts \<Rightarrow> (c # t) # ts))"

text \<open>
  \<^verbatim>\<open>int(s)\<close> on a string, base ten: surrounding whitespace is stripped, one sign is
  allowed, then decimal digits, where a single underscore may stand between two digits.
  Anything else raises \<^verbatim>\<open>ValueError\<close>, and so does a literal of more than
  \<^verbatim>\<open>sys.get_int_max_str_digits()\<close> digits, 4300 unless the interpreter is told otherwise.

  A character is a code point below 256. The whitespace that \<^verbatim>\<open>int\<close> strips there is
  tab, line feed, vertical tab, form feed, carriage return and space, and of the code
  points from 128 on the two that are Unicode whitespace, 0x85 and 0xA0. The separators
  0x1C to 0x1F are not stripped.
\<close>

definition py_isspace :: "char \<Rightarrow> bool" where
  "py_isspace c \<longleftrightarrow>
     c \<in> set [CHR 0x09, CHR 0x0A, CHR 0x0B, CHR 0x0C, CHR 0x0D, CHR 0x20,
              CHR 0x85, CHR 0xA0]"

definition strip :: "string \<Rightarrow> string" where
  "strip s = rev (dropWhile py_isspace (rev (dropWhile py_isspace s)))"

definition is_digit :: "char \<Rightarrow> bool" where
  "is_digit c \<longleftrightarrow> (48::nat) \<le> of_char c \<and> (of_char c :: nat) \<le> 57"

definition digit_val :: "char \<Rightarrow> nat" where
  "digit_val c = of_char c - 48"

fun digits_tail :: "nat \<Rightarrow> string \<Rightarrow> nat option" where
  "digits_tail acc [] = Some acc"
| "digits_tail acc (c # cs) =
     (if is_digit c then digits_tail (10 * acc + digit_val c) cs
      else if c = CHR ''_'' then
        (case cs of
           [] \<Rightarrow> None
         | d # ds \<Rightarrow> if is_digit d then digits_tail (10 * acc + digit_val d) ds else None)
      else None)"

definition int_max_str_digits :: nat where
  "int_max_str_digits = 4300"

definition py_digits :: "string \<Rightarrow> nat option" where
  "py_digits s =
     (if int_max_str_digits < length (filter is_digit s) then None
      else (case s of
              [] \<Rightarrow> None
            | c # cs \<Rightarrow> if is_digit c then digits_tail (digit_val c) cs else None))"

definition py_int :: "string \<Rightarrow> py_error + int" where
  "py_int s =
     (let t = strip s;
          r = (case t of
                 [] \<Rightarrow> None
               | c # cs \<Rightarrow>
                   if c = CHR ''-'' then map_option (\<lambda>n. - int n) (py_digits cs)
                   else if c = CHR ''+'' then map_option int (py_digits cs)
                   else map_option int (py_digits t))
      in case r of None \<Rightarrow> Inl ValueError | Some v \<Rightarrow> Inr v)"

text \<open>
  The list comprehension: tokens are visited in order, empty ones are skipped, and the
  first token that \<^verbatim>\<open>int\<close> rejects raises. The test \<^verbatim>\<open>s is not None\<close> is on the
  token, which is a string: it is always true and has no branch of its own.
\<close>

fun parse_tokens :: "string list \<Rightarrow> py_error + int list" where
  "parse_tokens [] = Inr []"
| "parse_tokens (t # ts) =
     (if t \<noteq> [] then
        (case py_int t of
           Inl e \<Rightarrow> Inl e
         | Inr v \<Rightarrow> (case parse_tokens ts of Inl e \<Rightarrow> Inl e | Inr vs \<Rightarrow> Inr (v # vs)))
      else parse_tokens ts)"

text \<open>
  The argument is a string or \<^verbatim>\<open>None\<close>. \<^verbatim>\<open>s.split\<close> is the first thing evaluated,
  and \<^verbatim>\<open>None\<close> has no attribute \<^verbatim>\<open>split\<close>.
\<close>

definition parse_str :: "string option \<Rightarrow> py_error + int list" where
  "parse_str s =
     (case s of
        None \<Rightarrow> Inl AttributeError
      | Some str \<Rightarrow> parse_tokens (split_on CHR '','' str))"

text \<open>
  The strings the parser is meant for: \<^verbatim>\<open>str(v)\<close> of an integer is its decimal digits,
  after a minus sign when it is negative; \<^verbatim>\<open>sep.join(tokens)\<close> puts the separator
  between consecutive tokens; a token of a comma-separated list is empty or an integer.
\<close>

definition digit_char :: "nat \<Rightarrow> char" where
  "digit_char d = char_of (48 + d)"

function digits_of :: "nat \<Rightarrow> string" where
  "digits_of n =
     (if n < 10 then [digit_char n] else digits_of (n div 10) @ [digit_char (n mod 10)])"
  by pat_completeness auto
termination
  by (relation "measure (\<lambda>n. n)") auto

definition str_of_int :: "int \<Rightarrow> string" where
  "str_of_int v = (if v < 0 then CHR ''-'' # digits_of (nat (- v)) else digits_of (nat v))"

fun join_with :: "char \<Rightarrow> string list \<Rightarrow> string" where
  "join_with sep [] = []"
| "join_with sep [t] = t"
| "join_with sep (t # u # us) = t @ sep # join_with sep (u # us)"

definition token_str :: "int option \<Rightarrow> string" where
  "token_str t = (case t of None \<Rightarrow> [] | Some v \<Rightarrow> str_of_int v)"

definition num_digits :: "int \<Rightarrow> nat" where
  "num_digits v = length (digits_of (nat \<bar>v\<bar>))"

section \<open>Configuration and the decoder's constructor arguments\<close>

text \<open>
  The fields of the configuration that \<^verbatim>\<open>generate_recons\<close> reads for the modelled steps,
  named by their path under \<^verbatim>\<open>config.dataset.ddpm\<close>. Floating-point fields are passed
  through unchanged and have the type parameter \<open>'f\<close>.
\<close>

record 'f config =
  evaluation_batch_size :: int
  evaluation_n_steps :: int
  evaluation_n_samples :: int
  evaluation_device :: string
  evaluation_workers :: int
  data_image_size :: int
  data_n_channels :: int
  model_dim :: int
  model_n_residual :: int
  model_attn_resolutions :: "string option"
  model_dim_mults :: "string option"
  model_dropout :: 'f
  model_n_heads :: int

text \<open>The keyword arguments of the \<^verbatim>\<open>SuperResModel(...)\<close> call (lines 46 to 56).\<close>

record 'f super_res_args =
  in_channels :: int
  model_channels :: int
  out_channels :: int
  num_res_blocks :: int
  attention_resolutions :: "int list"
  channel_mult :: "int list"
  use_checkpoint :: bool
  dropout :: 'f
  num_heads :: int

definition decoder_args :: "'f config \<Rightarrow> py_error + 'f super_res_args" where
  "decoder_args c =
     (case parse_str (model_attn_resolutions c) of
        Inl e \<Rightarrow> Inl e
      | Inr attn_resolutions \<Rightarrow>
          (case parse_str (model_dim_mults c) of
             Inl e \<Rightarrow> Inl e
           | Inr dim_mults \<Rightarrow>
               Inr \<lparr> in_channels = data_n_channels c,
                     model_channels = model_dim c,
                     out_channels = 3,
                     num_res_blocks = model_n_residual c,
                     attention_resolutions = attn_resolutions,
                     channel_mult = dim_mults,
                     use_checkpoint = False,
                     dropout = model_dropout c,
                     num_heads = model_n_heads c \<rparr>))"

section \<open>Datasets\<close>

text \<open>
  A tensor is its shape and its rows along the first dimension. \<^verbatim>\<open>torch.randn(*sizes)\<close>
  raises when a size is negative or is not a signed 64-bit integer, when the size in
  bytes of the elements, four bytes each, is not one, and when the allocator cannot
  provide the memory; \<open>max_numel\<close> is the number of elements the allocator can provide.
  Otherwise the tensor has the requested shape, and its rows come from the process's random stream, the parameter
  \<open>gen\<close> (row \<open>i\<close> of the draw is \<open>gen i\<close>).
\<close>

record 'r tensor =
  shape :: "nat list"
  rows :: "'r list"

definition randn :: "nat \<Rightarrow> (nat \<Rightarrow> 'r) \<Rightarrow> int list \<Rightarrow> py_error + 'r tensor" where
  "randn max_numel gen sizes =
     (if list_ex (\<lambda>d. d < 0 \<or> 2 ^ 63 \<le> d) sizes
         \<or> 2 ^ 63 \<le> 4 * prod_list sizes \<or> int max_numel < prod_list sizes
      then Inl RuntimeError
      else Inr \<lparr> shape = map nat sizes,
                 rows = (case sizes of [] \<Rightarrow> [] | n # _ \<Rightarrow> map gen [0..<nat n]) \<rparr>)"

text \<open>
  A dataset is the list of its items: \<^verbatim>\<open>len\<close> is the length and \<^verbatim>\<open>dataset[i]\<close> is
  \<open>getitem\<close>. \<^verbatim>\<open>TensorDataset(t)\<close> has one item per row of \<open>t\<close>.
\<close>

definition getitem :: "'a list \<Rightarrow> nat \<Rightarrow> py_error + 'a" where
  "getitem ds i = (if i < length ds then Inr (ds ! i) else Inl IndexError)"

definition TensorDataset :: "'r tensor \<Rightarrow> 'r list" where
  "TensorDataset t = rows t"

definition item_shape :: "'r tensor \<Rightarrow> nat list" where
  "item_shape t = tl (shape t)"

text \<open>Lines 92 to 94: \<^verbatim>\<open>torch.randn(n_samples, 3, image_size, image_size)\<close>.\<close>

definition ddpm_latent_tensor ::
  "nat \<Rightarrow> (nat \<Rightarrow> 'r) \<Rightarrow> 'f config \<Rightarrow> py_error + 'r tensor" where
  "ddpm_latent_tensor max_numel gen c =
     randn max_numel gen [evaluation_n_samples c, 3, data_image_size c, data_image_size c]"

definition ddpm_latent_dataset ::
  "nat \<Rightarrow> (nat \<Rightarrow> 'r) \<Rightarrow> 'f config \<Rightarrow> py_error + 'r list" where
  "ddpm_latent_dataset max_numel gen c =
     (case ddpm_latent_tensor max_numel gen c of
        Inl e \<Rightarrow> Inl e
      | Inr t \<Rightarrow> Inr (TensorDataset t))"

text \<open>
  The sizes of line 93 that \<^verbatim>\<open>torch.randn\<close> accepts: each is a non-negative signed
  64-bit integer, and so is the size in bytes of their product, which the allocator can
  provide.
\<close>

definition latent_sizes_ok :: "nat \<Rightarrow> 'f config \<Rightarrow> bool" where
  "latent_sizes_ok max_numel c \<longleftrightarrow>
     0 \<le> evaluation_n_samples c \<and> evaluation_n_samples c < 2 ^ 63
     \<and> 0 \<le> data_image_size c \<and> data_image_size c < 2 ^ 63
     \<and> 4 * (evaluation_n_samples c * 3 * data_image_size c * data_image_size c) < 2 ^ 63
     \<and> evaluation_n_samples c * 3 * data_image_size c * data_image_size c \<le> int max_numel"

text \<open>
  Modelled from the spec: \<^verbatim>\<open>ReconstructionDataset\<close> (module \<^verbatim>\<open>datasets.recons\<close>) is not
  among the sources. The spec has it built from the images under a root directory and
  truncated to \<^verbatim>\<open>subsample_size\<close> items, shorter when the source has fewer images.
\<close>

definition ReconstructionDataset :: "'i list \<Rightarrow> int \<Rightarrow> 'i list" where
  "ReconstructionDataset images subsample_size = take (nat subsample_size) images"

text \<open>
  Modelled from the spec: \<^verbatim>\<open>ZipDataset\<close> (module \<^verbatim>\<open>datasets.latent\<close>) is not among the
  sources. The spec pairs the two datasets by position, item \<open>i\<close> being
  \<open>(recons[i], noise[i])\<close>, and gives the pairing the length of the shorter one.
\<close>

definition ZipDataset :: "'i list \<Rightarrow> 'r list \<Rightarrow> ('i \<times> 'r) list" where
  "ZipDataset recons_dataset latent_dataset = zip recons_dataset latent_dataset"

text \<open>Lines 89 to 95.\<close>

definition pred_dataset ::
  "'i list \<Rightarrow> nat \<Rightarrow> (nat \<Rightarrow> 'r) \<Rightarrow> 'f config \<Rightarrow> py_error + ('i \<times> 'r) list" where
  "pred_dataset images max_numel gen c =
     (let recons_dataset = ReconstructionDataset images (evaluation_n_samples c)
      in case ddpm_latent_dataset max_numel gen c of
           Inl e \<Rightarrow> Inl e
         | Inr latent \<Rightarrow> Inr (ZipDataset recons_dataset latent))"

section \<open>Device setup\<close>

text \<open>
  Lines 98 to 108. The two dictionaries are maps from the keyword to its value.
  \<^verbatim>\<open>configure_device\<close> (module \<^verbatim>\<open>util\<close>) is not among the sources: it is the parameter
  \<open>configure_device\<close>, which returns a pair or raises.
\<close>

datatype 'd kw_value = Devs 'd | IntVal int | BoolVal bool

definition setup_devices ::
  "(string \<Rightarrow> py_error + ('x \<times> 'd)) \<Rightarrow> string
   \<Rightarrow> py_error + ((string \<rightharpoonup> 'd kw_value) \<times> (string \<rightharpoonup> 'd kw_value))" where
  "setup_devices configure_device device =
     (let test_kwargs = Map.empty; loader_kws = Map.empty
      in if prefix ''gpu'' device then
           (case configure_device device of
              Inl e \<Rightarrow> Inl e
            | Inr (_, devs) \<Rightarrow>
                Inr (test_kwargs(''gpus'' \<mapsto> Devs devs),
                     loader_kws(''persistent_workers'' \<mapsto> BoolVal True)))
         else if device = ''tpu'' then
           Inr (test_kwargs(''tpu_cores'' \<mapsto> IntVal 8), loader_kws)
         else Inr (test_kwargs, loader_kws))"

section \<open>The batch loader\<close>

text \<open>
  \<^verbatim>\<open>DataLoader(dataset, batch_size, shuffle, drop_last, num_workers, persistent_workers)\<close>
  checks its arguments when it is built: a negative \<^verbatim>\<open>num_workers\<close> raises, and so does
  \<^verbatim>\<open>persistent_workers\<close> without workers. It then draws indices from a sampler and groups
  them with a batch sampler, which raises on a batch size that is not positive and whose
  loop is
  \<^verbatim>\<open>
  batch = []
  for idx in sampler:
      batch.append(idx)
      if len(batch) == batch_size:
          yield batch
          batch = []
  if len(batch) > 0 and not drop_last:
      yield batch
  \<close>
  Without shuffling the sampler is \<^verbatim>\<open>range(len(dataset))\<close>; with shuffling it is a
  permutation of it, the parameter \<open>perm\<close>. The workers fetch the batches, which are
  delivered in the order of the batch sampler.
\<close>

fun batch_loop :: "nat \<Rightarrow> bool \<Rightarrow> nat list \<Rightarrow> nat list \<Rightarrow> nat list list" where
  "batch_loop B drop_last batch [] = (if length batch > 0 \<and> \<not> drop_last then [batch] else [])"
| "batch_loop B drop_last batch (idx # rest) =
     (let batch' = batch @ [idx]
      in if length batch' = B then batch' # batch_loop B drop_last [] rest
         else batch_loop B drop_last batch' rest)"

definition batch_sampler :: "nat list \<Rightarrow> int \<Rightarrow> bool \<Rightarrow> py_error + nat list list" where
  "batch_sampler sampler batch_size drop_last =
     (if batch_size \<le> 0 then Inl ValueError
      else Inr (batch_loop (nat batch_size) drop_last [] sampler))"

definition DataLoader_indices ::
  "(nat list \<Rightarrow> nat list) \<Rightarrow> nat \<Rightarrow> int \<Rightarrow> bool \<Rightarrow> bool \<Rightarrow> int \<Rightarrow> bool
   \<Rightarrow> py_error + nat list list" where
  "DataLoader_indices perm n batch_size shuffle drop_last num_workers persistent_workers =
     (if num_workers < 0 then Inl ValueError
      else if persistent_workers \<and> num_workers = 0 then Inl ValueError
      else batch_sampler (if shuffle then perm [0..<n] else [0..<n]) batch_size drop_last)"

definition DataLoader ::
  "(nat list \<Rightarrow> nat list) \<Rightarrow> 'a list \<Rightarrow> int \<Rightarrow> bool \<Rightarrow> bool \<Rightarrow> int \<Rightarrow> bool
   \<Rightarrow> py_error + 'a list list" where
  "DataLoader perm dataset batch_size shuffle drop_last num_workers persistent_workers =
     (case DataLoader_indices perm (length dataset) batch_size shuffle drop_last
             num_workers persistent_workers of
        Inl e \<Rightarrow> Inl e
      | Inr batches \<Rightarrow> Inr (map (map (\<lambda>idx. dataset ! idx)) batches))"

text \<open>
  Lines 111 to 119: \<^verbatim>\<open>shuffle=False\<close>, \<^verbatim>\<open>drop_last=False\<close>, \<^verbatim>\<open>num_workers\<close> from the
  configuration and \<^verbatim>\<open>**loader_kws\<close>, the dictionary of the device setup, in which only
  \<^verbatim>\<open>persistent_workers\<close> is ever set; the loader's default for it is false.
\<close>

definition persistent_workers_of :: "(string \<rightharpoonup> 'd kw_value) \<Rightarrow> bool" where
  "persistent_workers_of loader_kws =
     (case loader_kws ''persistent_workers'' of Some (BoolVal b) \<Rightarrow> b | _ \<Rightarrow> False)"

definition val_loader_indices ::
  "(nat list \<Rightarrow> nat list) \<Rightarrow> nat \<Rightarrow> int \<Rightarrow> int \<Rightarrow> (string \<rightharpoonup> 'd kw_value)
   \<Rightarrow> py_error + nat list list" where
  "val_loader_indices perm n batch_size num_workers loader_kws =
     DataLoader_indices perm n batch_size False False num_workers
       (persistent_workers_of loader_kws)"

definition val_loader ::
  "(nat list \<Rightarrow> nat list) \<Rightarrow> 'a list \<Rightarrow> int \<Rightarrow> int \<Rightarrow> (string \<rightharpoonup> 'd kw_value)
   \<Rightarrow> py_error + 'a list list" where
  "val_loader perm dataset batch_size num_workers loader_kws =
     DataLoader perm dataset batch_size False False num_workers
       (persistent_workers_of loader_kws)"

text \<open>The arguments with which the loader of lines 111 to 119 is built without raising.\<close>

definition loader_args_ok :: "int \<Rightarrow> int \<Rightarrow> (string \<rightharpoonup> 'd kw_value) \<Rightarrow> bool" where
  "loader_args_ok batch_size num_workers loader_kws \<longleftrightarrow>
     0 < batch_size \<and> 0 \<le> num_workers
     \<and> (if persistent_workers_of loader_kws then 0 < num_workers else True)"

section \<open>The EMA copy of the decoder\<close>

text \<open>
  Line 58: \<^verbatim>\<open>ema_decoder = copy.deepcopy(decoder)\<close>. Parameters are objects on the heap, so
  the heap is explicit: a store is the list of the allocated tensors, an address is an
  index into it, and a module is the list of its named parameters, each a reference.
  \<^verbatim>\<open>deepcopy\<close> allocates a new tensor with the same contents for every parameter it meets
  and keeps a memo of the objects already copied, so that two names that share one
  tensor share one tensor in the copy too.
\<close>

type_synonym module = "(string \<times> nat) list"

fun deepcopy_refs ::
  "(nat \<times> nat) list \<Rightarrow> module \<Rightarrow> 'v list \<Rightarrow> module \<times> (nat \<times> nat) list \<times> 'v list" where
  "deepcopy_refs memo [] h = ([], memo, h)"
| "deepcopy_refs memo ((name, a) # ps) h =
     (case map_of memo a of
        Some a' \<Rightarrow>
          (case deepcopy_refs memo ps h of
             (ps', memo', h') \<Rightarrow> ((name, a') # ps', memo', h'))
      | None \<Rightarrow>
          (case deepcopy_refs ((a, length h) # memo) ps (h @ [h ! a]) of
             (ps', memo', h') \<Rightarrow> ((name, length h) # ps', memo', h')))"

definition deepcopy :: "module \<Rightarrow> 'v list \<Rightarrow> module \<times> 'v list" where
  "deepcopy m h = (case deepcopy_refs [] m h of (m', _, h') \<Rightarrow> (m', h'))"

text \<open>Reading all parameters of a module, and assigning to one of them in place.\<close>

definition state_dict :: "'v list \<Rightarrow> module \<Rightarrow> (string \<times> 'v) list" where
  "state_dict h m = map (\<lambda>(name, a). (name, h ! a)) m"

definition set_param :: "'v list \<Rightarrow> module \<Rightarrow> string \<Rightarrow> 'v \<Rightarrow> 'v list" where
  "set_param h m name v = (case map_of m name of None \<Rightarrow> h | Some a \<Rightarrow> h[a := v])"

text \<open>A module is allocated in a store when all its references are addresses of the store.\<close>

definition allocated :: "module \<Rightarrow> 'v list \<Rightarrow> bool" where
  "allocated m h \<longleftrightarrow> list_all (\<lambda>(name, a). a < length h) m"

text \<open>
  The relations the copy keeps: a copied reference has the name of the original, points
  to a tensor allocated at or after address \<open>n0\<close> (the size of the store when the copy
  began) and holds the contents of the original; every entry of the memo relates an old
  address to such a new one.
\<close>

definition copy_ok :: "nat \<Rightarrow> 'v list \<Rightarrow> 'v list \<Rightarrow> string \<times> nat \<Rightarrow> string \<times> nat \<Rightarrow> bool" where
  "copy_ok n0 h h' p p' \<longleftrightarrow>
     fst p' = fst p \<and> n0 \<le> snd p' \<and> snd p' < length h' \<and> h' ! snd p' = h ! snd p"

definition memo_ok :: "nat \<Rightarrow> 'v list \<Rightarrow> (nat \<times> nat) list \<Rightarrow> bool" where
  "memo_ok n0 h memo \<longleftrightarrow>
     (\<forall>(a, a') \<in> set memo. a < n0 \<and> n0 \<le> a' \<and> a' < length h \<and> h ! a' = h ! a)"

section \<open>Checkpoint loading\<close>

text \<open>
  Lines 33 to 40 and 77 to 86 call \<^verbatim>\<open>load_from_checkpoint\<close>, the class method that a
  Lightning module inherits: it builds the model from the keyword arguments and calls
  \<^verbatim>\<open>torch.nn.Module.load_state_dict(state_dict, strict)\<close> on it with the flag it was
  given, true by default. The classes \<^verbatim>\<open>VAE\<close> and \<^verbatim>\<open>DDPMWrapper\<close> are not among the
  sources; what they contribute here is the names and shapes of their parameters, which
  are arguments of the model. The source passes the wrapper the single flag
  \<^verbatim>\<open>strict=False\<close> (line 83) and names no group of optional parameters.

  A parameter is its shape and its elements in row-major order; a model's live parameters
  and a snapshot are lists of named parameters. \<^verbatim>\<open>load_state_dict\<close> visits the live
  parameters:
  \<^verbatim>\<open>
  if key in state_dict:
      input_param = state_dict[key]
      if len(param.shape) == 0 and len(input_param.shape) == 1:
          input_param = input_param[0]
      if input_param.shape != param.shape:
          error_msgs.append(...); continue
      param.copy_(input_param)
  elif strict:
      missing_keys.append(key)
  \<close>
  and afterwards, when strict, adds an error for the missing and for the unexpected keys,
  and raises \<^verbatim>\<open>RuntimeError\<close> when there is any error.
\<close>

record 'v param =
  dims :: "nat list"
  elems :: "'v list"

definition compat_input :: "'v param \<Rightarrow> 'v param \<Rightarrow> py_error + 'v param" where
  "compat_input live_param input_param =
     (if dims live_param = [] \<and> length (dims input_param) = 1 then
        (if dims input_param = [0] then Inl IndexError
         else Inr \<lparr> dims = [], elems = take 1 (elems input_param) \<rparr>)
      else Inr input_param)"

text \<open>
  The visit returns the keys with a size mismatch, the missing keys and the parameters
  after the copies, or raises at once when the indexing of \<open>compat_input\<close> does.
\<close>

fun load_from_state_dict ::
  "(string \<times> 'v param) list \<Rightarrow> (string \<times> 'v param) list
   \<Rightarrow> py_error + (string list \<times> string list \<times> (string \<times> 'v param) list)" where
  "load_from_state_dict snapshot [] = Inr ([], [], [])"
| "load_from_state_dict snapshot ((key, p) # rest) =
     (case map_of snapshot key of
        None \<Rightarrow>
          (case load_from_state_dict snapshot rest of
             Inl e \<Rightarrow> Inl e
           | Inr (mismatched, missing, ps) \<Rightarrow> Inr (mismatched, key # missing, (key, p) # ps))
      | Some input_param \<Rightarrow>
          (case compat_input p input_param of
             Inl e \<Rightarrow> Inl e
           | Inr input_param' \<Rightarrow>
               (case load_from_state_dict snapshot rest of
                  Inl e \<Rightarrow> Inl e
                | Inr (mismatched, missing, ps) \<Rightarrow>
                    if dims input_param' \<noteq> dims p
                    then Inr (key # mismatched, missing, (key, p) # ps)
                    else Inr (mismatched, missing, (key, input_param') # ps))))"

definition unexpected_keys :: "(string \<times> 'v param) list \<Rightarrow> (string \<times> 'v param) list \<Rightarrow> string list" where
  "unexpected_keys live snapshot = filter (\<lambda>k. map_of live k = None) (map fst snapshot)"

definition load_state_dict ::
  "(string \<times> 'v param) list \<Rightarrow> (string \<times> 'v param) list \<Rightarrow> bool
   \<Rightarrow> py_error + (string \<times> 'v param) list" where
  "load_state_dict live snapshot strict =
     (case load_from_state_dict snapshot live of
        Inl e \<Rightarrow> Inl e
      | Inr (mismatched, missing, ps) \<Rightarrow>
          if mismatched \<noteq> []
             \<or> (strict \<and> (missing \<noteq> [] \<or> unexpected_keys live snapshot \<noteq> []))
          then Inl RuntimeError
          else Inr ps)"

text \<open>Lines 33 to 40: the VAE is loaded with the default, strict.\<close>

definition load_vae ::
  "(string \<times> 'v param) list \<Rightarrow> (string \<times> 'v param) list \<Rightarrow> py_error + (string \<times> 'v param) list" where
  "load_vae vae_params snapshot = load_state_dict vae_params snapshot True"

text \<open>
  Lines 77 to 86: the wrapper owns the parameters of the two diffusion networks and of
  the VAE, and is loaded with \<^verbatim>\<open>strict=False\<close>.
\<close>

definition load_ddpm_wrapper ::
  "(string \<times> 'v param) list \<Rightarrow> (string \<times> 'v param) list \<Rightarrow> (string \<times> 'v param) list
   \<Rightarrow> py_error + (string \<times> 'v param) list" where
  "load_ddpm_wrapper diffusion_params vae_params snapshot =
     load_state_dict (diffusion_params @ vae_params) snapshot False"

text \<open>
  The keys of the live parameters that a snapshot lacks, and the model in which every
  parameter found in the snapshot has the snapshot's tensor and every other parameter its
  constructed one.
\<close>

definition missing_keys :: "(string \<times> 'v param) list \<Rightarrow> (string \<times> 'v param) list \<Rightarrow> string list" where
  "missing_keys live snapshot = filter (\<lambda>k. map_of snapshot k = None) (map fst live)"

definition restore :: "(string \<times> 'v param) list \<Rightarrow> (string \<times> 'v param) list \<Rightarrow> (string \<times> 'v param) list" where
  "restore snapshot live =
     map (\<lambda>(k, t). (k, case map_of snapshot k of None \<Rightarrow> t | Some t' \<Rightarrow> t')) live"

section \<open>The predict run\<close>

text \<open>
  Modelled from the spec: \<^verbatim>\<open>ImageWriter\<close> (module \<^verbatim>\<open>models.callbacks\<close>) and the
  wrapper's predict operation are not among the sources, and the driver is the
  trainer's \<^verbatim>\<open>predict\<close>. In the spec the driver iterates every batch exactly once, calls
  the predict operation on it and calls the writer with the result; a failure of the
  predict operation aborts the run; the predict operation returns one reconstruction for
  each pair of the batch; the writer is called once for each batch and persists its
  outputs under a deterministic index, so that output order is input order.
\<close>

record 'o writer =
  calls :: nat
  written :: "(nat \<times> 'o) list"

definition write_on_batch_end :: "'o writer \<Rightarrow> 'o list \<Rightarrow> 'o writer" where
  "write_on_batch_end w outs =
     \<lparr> calls = calls w + 1,
       written = written w @ zip [length (written w) ..< length (written w) + length outs] outs \<rparr>"

fun predict_step :: "('s \<Rightarrow> py_error + 'o) \<Rightarrow> 's list \<Rightarrow> py_error + 'o list" where
  "predict_step f [] = Inr []"
| "predict_step f (x # xs) =
     (case f x of
        Inl e \<Rightarrow> Inl e
      | Inr y \<Rightarrow> (case predict_step f xs of Inl e \<Rightarrow> Inl e | Inr ys \<Rightarrow> Inr (y # ys)))"

fun trainer_predict ::
  "('s \<Rightarrow> py_error + 'o) \<Rightarrow> 's list list \<Rightarrow> 'o writer \<Rightarrow> py_error + 'o writer" where
  "trainer_predict f [] w = Inr w"
| "trainer_predict f (batch # rest) w =
     (case predict_step f batch of
        Inl e \<Rightarrow> Inl e
      | Inr outs \<Rightarrow> trainer_predict f rest (write_on_batch_end w outs))"

text \<open>
  \<^verbatim>\<open>pl.Trainer(**test_kwargs)\<close> builds the driver. With no accelerator option it runs on
  the host; with \<^verbatim>\<open>gpus\<close> or \<^verbatim>\<open>tpu_cores\<close> it raises when the machine does not have the
  accelerators asked for, which the parameter \<open>accelerators_ok\<close> tells. The keys
  \<^verbatim>\<open>callbacks\<close> and \<^verbatim>\<open>default_root_dir\<close> of lines 133 and 134 are the writer and its
  directory.
\<close>

definition Trainer ::
  "((string \<rightharpoonup> 'd kw_value) \<Rightarrow> bool) \<Rightarrow> (string \<rightharpoonup> 'd kw_value) \<Rightarrow> py_error + unit" where
  "Trainer accelerators_ok test_kwargs =
     (if test_kwargs ''gpus'' = None \<and> test_kwargs ''tpu_cores'' = None then Inr ()
      else if accelerators_ok test_kwargs then Inr ()
      else Inl MisconfigurationException)"

text \<open>
  The steps of \<^verbatim>\<open>generate_recons\<close> after the checkpoints are loaded, in the order of
  the source: the decoder's arguments are parsed, the paired dataset is built, the device
  is set up, the loader is built with the configured number of workers and the loader
  options of the device setup, the trainer is built with the trainer options of the
  device setup, and it runs over the loader in one process. The loaded wrapper is its
  predict operation \<open>f\<close>.
\<close>

definition generate_recons ::
  "'i list \<Rightarrow> nat \<Rightarrow> (nat \<Rightarrow> 'r) \<Rightarrow> (nat list \<Rightarrow> nat list)
   \<Rightarrow> (string \<Rightarrow> py_error + ('x \<times> 'd)) \<Rightarrow> ((string \<rightharpoonup> 'd kw_value) \<Rightarrow> bool)
   \<Rightarrow> ('i \<times> 'r \<Rightarrow> py_error + 'o) \<Rightarrow> 'f config \<Rightarrow> py_error + 'o writer" where
  "generate_recons images max_numel gen perm configure_device accelerators_ok f c =
     (case decoder_args c of
        Inl e \<Rightarrow> Inl e
      | Inr _ \<Rightarrow>
     (case pred_dataset images max_numel gen c of
        Inl e \<Rightarrow> Inl e
      | Inr pred \<Rightarrow>
     (case setup_devices configure_device (evaluation_device c) of
        Inl e \<Rightarrow> Inl e
      | Inr (test_kwargs, loader_kws) \<Rightarrow>
     (case val_loader perm pred (evaluation_batch_size c) (evaluation_workers c) loader_kws of
        Inl e \<Rightarrow> Inl e
      | Inr loader \<Rightarrow>
     (case Trainer accelerators_ok test_kwargs of
        Inl e \<Rightarrow> Inl e
      | Inr _ \<Rightarrow> trainer_predict f loader \<lparr> calls = 0, written = [] \<rparr>)))))"

section \<open>An example configuration\<close>

text \<open>
  A configuration for a run of ten samples in batches of four on the host, at a small
  image size; the attention resolutions and channel multipliers are written as in the
  repository's configuration files.
\<close>

definition example_config :: "unit config" where
  "example_config =
     \<lparr> evaluation_batch_size = 4,
       evaluation_n_steps = 1000,
       evaluation_n_samples = 10,
       evaluation_device = ''cpu'',
       evaluation_workers = 2,
       data_image_size = 2,
       data_n_channels = 6,
       model_dim = 128,
       model_n_residual = 2,
       model_attn_resolutions = Some ''16,'',
       model_dim_mults = Some ''1,2,2,3,4'',
       model_dropout = (),
       model_n_heads = 8 \<rparr>"

section \<open>Properties of the config parser\<close>

lemma parse_tokens_valid:
  "\<forall>t \<in> set ts. t \<noteq> [] \<longrightarrow> (\<exists>v. py_int t = Inr v) \<Longrightarrow>
   \<exists>vs. parse_tokens ts = Inr vs
      \<and> list_all2 (\<lambda>t v. py_int t = Inr v) (filter (\<lambda>t. t \<noteq> []) ts) vs"
proof (induction ts)
  case Nil
  then show ?case by simp
next
  case (Cons t ts)
  from Cons.prems have rest: "\<forall>t \<in> set ts. t \<noteq> [] \<longrightarrow> (\<exists>v. py_int t = Inr v)"
    by simp
  from Cons.IH [OF rest] obtain vs where
    vs: "parse_tokens ts = Inr vs"
        "list_all2 (\<lambda>t v. py_int t = Inr v) (filter (\<lambda>t. t \<noteq> []) ts) vs"
    by blast
  show ?case
  proof (cases "t = []")
    case True
    with vs show ?thesis by simp
  next
    case False
    with Cons.prems obtain v where v: "py_int t = Inr v" by auto
    with False vs show ?thesis by simp
  qed
qed

lemmas py_int_eval =
  py_int_def strip_def py_isspace_def py_digits_def is_digit_def digit_val_def
  int_max_str_digits_def

declare digits_of.simps [simp del]

lemma digit_char_props:
  assumes "d < 10"
  shows "is_digit (digit_char d)" and "digit_val (digit_char d) = d"
  using assms by (simp_all add: is_digit_def digit_val_def digit_char_def)

lemma is_digit_not_special:
  assumes "is_digit c"
  shows "c \<noteq> CHR ''-''" and "c \<noteq> CHR ''+''" and "c \<noteq> CHR '',''" and "c \<noteq> CHR ''_''"
    and "\<not> py_isspace c"
  using assms by (auto simp: is_digit_def py_isspace_def)

lemma digits_tail_all_digits:
  "\<forall>c \<in> set ds. is_digit c \<Longrightarrow>
   digits_tail acc ds = Some (foldl (\<lambda>a c. 10 * a + digit_val c) acc ds)"
  by (induction ds arbitrary: acc) simp_all

lemma digits_of_props:
  "(\<forall>c \<in> set (digits_of n). is_digit c) \<and> digits_of n \<noteq> []
   \<and> foldl (\<lambda>a c. 10 * a + digit_val c) 0 (digits_of n) = n"
proof (induction n rule: digits_of.induct)
  case (1 n)
  show ?case
  proof (cases "n < 10")
    case True
    then show ?thesis
      by (simp add: digits_of.simps [of n] digit_char_props)
  next
    case False
    have m: "n mod 10 < 10" by simp
    from 1 [OF False] False m show ?thesis
      by (simp add: digits_of.simps [of n] digit_char_props)
  qed
qed

lemma py_digits_digits_of:
  assumes "length (digits_of n) \<le> int_max_str_digits"
  shows "py_digits (digits_of n) = Some n"
proof -
  from digits_of_props [of n] obtain c cs where
    s: "digits_of n = c # cs" by (cases "digits_of n") auto
  with digits_of_props [of n] have d: "is_digit c" "\<forall>c \<in> set cs. is_digit c"
    and v: "foldl (\<lambda>a c. 10 * a + digit_val c) 0 (c # cs) = n"
    by auto
  from v have "foldl (\<lambda>a c. 10 * a + digit_val c) (digit_val c) cs = n" by simp
  moreover from d have "filter is_digit (c # cs) = c # cs" by simp
  then have "\<not> int_max_str_digits < length (filter is_digit (c # cs))"
    using assms s by simp
  ultimately show ?thesis
    using d s by (simp add: py_digits_def digits_tail_all_digits)
qed

lemma strip_id:
  assumes "s \<noteq> []" "\<not> py_isspace (hd s)" "\<not> py_isspace (last s)"
  shows "strip s = s"
proof -
  from assms have "dropWhile py_isspace s = s"
    by (cases s) auto
  moreover from assms have "dropWhile py_isspace (rev s) = rev s"
    by (cases "rev s") (auto simp: hd_rev)
  ultimately show ?thesis by (simp add: strip_def)
qed

lemma py_int_str_of_int:
  assumes short: "num_digits v \<le> int_max_str_digits"
  shows "py_int (str_of_int v) = Inr v"
proof (cases "v < 0")
  case True
  let ?ds = "digits_of (nat (- v))"
  from True short have len: "length ?ds \<le> int_max_str_digits"
    by (simp add: num_digits_def abs_if)
  from digits_of_props [of "nat (- v)"] have ne: "?ds \<noteq> []" and dg: "\<forall>c \<in> set ?ds. is_digit c"
    by auto
  then have "is_digit (last ?ds)" by auto
  then have "\<not> py_isspace (last (CHR ''-'' # ?ds))"
    using ne by (simp add: is_digit_not_special)
  moreover have "\<not> py_isspace (hd (CHR ''-'' # ?ds))" by (simp add: py_isspace_def)
  ultimately have "strip (CHR ''-'' # ?ds) = CHR ''-'' # ?ds"
    by (intro strip_id) simp_all
  with True show ?thesis
    by (simp add: py_int_def str_of_int_def py_digits_digits_of [OF len])
next
  case False
  let ?ds = "digits_of (nat v)"
  from False short have len: "length ?ds \<le> int_max_str_digits"
    by (simp add: num_digits_def abs_if)
  from digits_of_props [of "nat v"] obtain c cs where s: "?ds = c # cs"
    and dg: "\<forall>c \<in> set ?ds. is_digit c"
    by (cases ?ds) auto
  then have c: "is_digit c" and l: "is_digit (last ?ds)" by auto
  from c l s have "strip ?ds = ?ds"
    by (intro strip_id) (simp_all add: is_digit_not_special)
  moreover have "py_digits (c # cs) = Some (nat v)"
    using py_digits_digits_of [OF len] s by simp
  ultimately show ?thesis
    using False s c by (simp add: py_int_def str_of_int_def is_digit_not_special)
qed

lemma str_of_int_no_comma: "CHR '','' \<notin> set (str_of_int v)"
  using digits_of_props [of "nat v"] digits_of_props [of "nat (- v)"]
  by (auto simp: str_of_int_def dest: is_digit_not_special(3))

lemma str_of_int_nonempty: "str_of_int v \<noteq> []"
  using digits_of_props [of "nat v"] by (simp add: str_of_int_def)

lemma split_on_no_sep: "sep \<notin> set t \<Longrightarrow> split_on sep t = [t]"
  by (induction t) auto

lemma split_on_append_sep:
  "sep \<notin> set t \<Longrightarrow> split_on sep (t @ sep # rest) = t # split_on sep rest"
  by (induction t) auto

lemma split_on_join:
  "ts \<noteq> [] \<Longrightarrow> \<forall>t \<in> set ts. sep \<notin> set t \<Longrightarrow> split_on sep (join_with sep ts) = ts"
  by (induction sep ts rule: join_with.induct)
     (simp_all add: split_on_no_sep split_on_append_sep)

lemma parse_tokens_token_str:
  "\<forall>t \<in> set toks. \<forall>v. t = Some v \<longrightarrow> num_digits v \<le> int_max_str_digits \<Longrightarrow>
   parse_tokens (map token_str toks) = Inr (List.map_filter (\<lambda>t. t) toks)"
proof (induction toks)
  case Nil
  then show ?case by (simp add: List.map_filter_simps)
next
  case (Cons t toks)
  then show ?case
    by (cases t)
       (simp_all add: token_str_def List.map_filter_simps str_of_int_nonempty py_int_str_of_int)
qed

lemma parse_str_join:
  assumes short: "\<forall>t \<in> set toks. \<forall>v. t = Some v \<longrightarrow> num_digits v \<le> int_max_str_digits"
  shows "parse_str (Some (join_with CHR '','' (map token_str toks)))
     = Inr (List.map_filter (\<lambda>t. t) toks)"
proof (cases "toks = []")
  case True
  then show ?thesis by (simp add: parse_str_def List.map_filter_simps)
next
  case False
  have "\<forall>t \<in> set (map token_str toks). CHR '','' \<notin> set t"
    by (auto simp: token_str_def str_of_int_no_comma split: option.splits)
  with False have "split_on CHR '','' (join_with CHR '','' (map token_str toks)) = map token_str toks"
    by (intro split_on_join) simp_all
  then show ?thesis by (simp add: parse_str_def parse_tokens_token_str [OF short])
qed

lemma parse_str_valid_string:
  assumes valid: "\<forall>t \<in> set (split_on CHR '','' s). t \<noteq> [] \<longrightarrow> (\<exists>v. py_int t = Inr v)"
  shows "\<exists>vs. parse_str (Some s) = Inr vs
        \<and> list_all2 (\<lambda>t v. py_int t = Inr v) (filter (\<lambda>t. t \<noteq> []) (split_on CHR '','' s)) vs
        \<and> length vs = length (filter (\<lambda>t. t \<noteq> []) (split_on CHR '','' s))"
proof -
  from parse_tokens_valid [OF valid] obtain vs where
    vs: "parse_tokens (split_on CHR '','' s) = Inr vs"
        "list_all2 (\<lambda>t v. py_int t = Inr v) (filter (\<lambda>t. t \<noteq> []) (split_on CHR '','' s)) vs"
    by blast
  from vs(2) have "length vs = length (filter (\<lambda>t. t \<noteq> []) (split_on CHR '','' s))"
    by (simp add: list_all2_lengthD)
  with vs show ?thesis by (simp add: parse_str_def)
qed

lemma map_filter_length:
  "length (List.map_filter (\<lambda>t. t) toks) = length (filter (\<lambda>t. t \<noteq> None) toks)"
  by (induction toks) (auto simp: List.map_filter_simps split: option.splits)

text \<open>
  Claim C4. A string is valid when \<^verbatim>\<open>int\<close> accepts each of its non-empty tokens. On
  every valid string the parser returns, without raising, one integer for each non-empty
  token, in the order of the tokens, each the value \<^verbatim>\<open>int\<close> gives its token; the
  empty tokens leave no trace, so the output is as long as the list of non-empty tokens.
  In particular, on the comma-joined decimal writing of any list of tokens, each empty or
  an integer of at most \<open>int_max_str_digits\<close> digits, the parser returns exactly the
  integers, in order. On \<^verbatim>\<open>"1,,3,"\<close> the result is \<^verbatim>\<open>[1, 3]\<close>.
\<close>

theorem parse_str_valid_tokens:
  "((\<forall>t \<in> set (split_on CHR '','' s). t \<noteq> [] \<longrightarrow> (\<exists>v. py_int t = Inr v)) \<longrightarrow>
     (\<exists>vs. parse_str (Some s) = Inr vs
        \<and> list_all2 (\<lambda>t v. py_int t = Inr v) (filter (\<lambda>t. t \<noteq> []) (split_on CHR '','' s)) vs
        \<and> length vs = length (filter (\<lambda>t. t \<noteq> []) (split_on CHR '','' s))))
   \<and> ((\<forall>t \<in> set toks. \<forall>v. t = Some v \<longrightarrow> num_digits v \<le> int_max_str_digits) \<longrightarrow>
        parse_str (Some (join_with CHR '','' (map token_str toks)))
          = Inr (List.map_filter (\<lambda>t. t) toks))
   \<and> length (List.map_filter (\<lambda>t. t) toks) = length (filter (\<lambda>t. t \<noteq> None) toks)
   \<and> parse_str (Some ''1,,3,'') = Inr [1, 3]"
proof (intro conjI impI)
  assume "\<forall>t \<in> set (split_on CHR '','' s). t \<noteq> [] \<longrightarrow> (\<exists>v. py_int t = Inr v)"
  then show "\<exists>vs. parse_str (Some s) = Inr vs
        \<and> list_all2 (\<lambda>t v. py_int t = Inr v) (filter (\<lambda>t. t \<noteq> []) (split_on CHR '','' s)) vs
        \<and> length vs = length (filter (\<lambda>t. t \<noteq> []) (split_on CHR '','' s))"
    by (rule parse_str_valid_string)
next
  assume "\<forall>t \<in> set toks. \<forall>v. t = Some v \<longrightarrow> num_digits v \<le> int_max_str_digits"
  then show "parse_str (Some (join_with CHR '','' (map token_str toks)))
       = Inr (List.map_filter (\<lambda>t. t) toks)"
    by (rule parse_str_join)
next
  show "length (List.map_filter (\<lambda>t. t) toks) = length (filter (\<lambda>t. t \<noteq> None) toks)"
    by (rule map_filter_length)
next
  show "parse_str (Some ''1,,3,'') = Inr [1, 3]"
    by (simp add: parse_str_def py_int_eval)
qed

theorem parse_str_valid_tokens_witness:
  "list_all (\<lambda>t. t = [] \<or> py_int t \<in> range Inr) (split_on CHR '','' '',16,, -2 ,+0_7'')
   \<and> parse_str (Some '',16,, -2 ,+0_7'') = Inr [16, - 2, 7]
   \<and> filter (\<lambda>t. t \<noteq> []) (split_on CHR '','' '',16,, -2 ,+0_7'') = [''16'', '' -2 '', ''+0_7'']
   \<and> list_all (\<lambda>v. num_digits v \<le> int_max_str_digits) [16, - 2]
   \<and> join_with CHR '','' (map token_str [Some 16, None, Some (- 2)]) = ''16,,-2''
   \<and> parse_str (Some ''16,,-2'') = Inr [16, - 2]"
proof -
  have d: "digits_of 16 = ''16''" "digits_of 2 = ''2''"
    by code_simp+
  have n: "num_digits 16 = 2" "num_digits (- 2) = 1"
    by (simp_all add: num_digits_def d)
  have j: "join_with CHR '','' (map token_str [Some 16, None, Some (- 2)]) = ''16,,-2''"
    by (simp add: token_str_def str_of_int_def d)
  have short: "\<forall>t \<in> set [Some 16, None, Some (- 2)].
      \<forall>v. t = Some v \<longrightarrow> num_digits v \<le> int_max_str_digits"
    by (simp add: n int_max_str_digits_def)
  note t = parse_str_valid_tokens [of "'',16,, -2 ,+0_7''" "[Some 16, None, Some (- 2)]"]
  from t short have "parse_str (Some (join_with CHR '','' (map token_str [Some 16, None, Some (- 2)])))
      = Inr (List.map_filter (\<lambda>t. t) [Some 16, None, Some (- 2)])"
    by blast
  then have r: "parse_str (Some ''16,,-2'') = Inr [16, - 2]"
    unfolding j by (simp add: List.map_filter_simps)
  have e: "list_all (\<lambda>t. t = [] \<or> py_int t \<in> range Inr) (split_on CHR '','' '',16,, -2 ,+0_7'')
      \<and> parse_str (Some '',16,, -2 ,+0_7'') = Inr [16, - 2, 7]
      \<and> filter (\<lambda>t. t \<noteq> []) (split_on CHR '','' '',16,, -2 ,+0_7'')
          = [''16'', '' -2 '', ''+0_7'']"
    by (simp add: parse_str_def py_int_eval)
  from e r j n show ?thesis by (simp add: int_max_str_digits_def)
qed

text \<open>
  Claim C5, on \<^verbatim>\<open>None\<close>: the call \<^verbatim>\<open>s.split(",")\<close> comes before any test, so the
  parser raises and returns no sequence.
\<close>

theorem parse_str_None_raises: "parse_str None = Inl AttributeError"
  by (simp add: parse_str_def)

text \<open>
  Claim C5, as amended: on the empty string the parser returns the empty sequence without
  raising; \<^verbatim>\<open>None\<close> is not a string and the parser has no result for it.
\<close>

theorem parse_str_empty_string:
  "parse_str (Some '''') = Inr [] \<and> (\<forall>vs. parse_str None \<noteq> Inr vs)"
  by (simp add: parse_str_def)

section \<open>Properties of the batch loader\<close>

lemma batch_loop_concat: "concat (batch_loop B False acc xs) = acc @ xs"
  by (induction xs arbitrary: acc) (auto simp: Let_def)

lemma batch_loop_length:
  "0 < B \<Longrightarrow> length acc < B \<Longrightarrow>
   length (batch_loop B False acc xs) = (length acc + length xs + B - 1) div B"
proof (induction xs arbitrary: acc)
  case Nil
  show ?case
  proof (cases "acc = []")
    case True
    with Nil show ?thesis by simp
  next
    case False
    then have "0 < length acc" by simp
    with Nil have "(length acc + B - 1) div B = 1"
      by (intro div_nat_eqI) (cases acc; simp)+
    with False show ?thesis by simp
  qed
next
  case (Cons idx rest)
  show ?case
  proof (cases "Suc (length acc) = B")
    case True
    have "length (batch_loop B False [] rest) = (length rest + B - 1) div B"
      using Cons.IH [of "[]"] Cons.prems by simp
    moreover have "(length acc + length (idx # rest) + B - 1) div B
        = Suc ((length rest + B - 1) div B)"
    proof -
      have e: "length acc + length (idx # rest) + B - 1 = (length rest + B - 1) + B"
        using True Cons.prems by simp
      have "B \<noteq> 0" using Cons.prems by simp
      then have "((length rest + B - 1) + B) div B = (length rest + B - 1) div B + 1"
        by (rule div_add_self2)
      with e show ?thesis by (simp only: Suc_eq_plus1)
    qed
    ultimately show ?thesis using True by (simp add: Let_def)
  next
    case False
    with Cons.prems have lt: "length (acc @ [idx]) < B" by simp
    from Cons.IH [OF Cons.prems(1) lt] False show ?thesis by (simp add: Let_def)
  qed
qed

lemma batch_loop_nth:
  "0 < B \<Longrightarrow> length acc < B \<Longrightarrow> k < length (batch_loop B False acc xs) \<Longrightarrow>
   batch_loop B False acc xs ! k = take B (drop (k * B) (acc @ xs))"
proof (induction xs arbitrary: acc k)
  case Nil
  then show ?case by (simp split: if_splits)
next
  case (Cons idx rest)
  show ?case
  proof (cases "Suc (length acc) = B")
    case True
    show ?thesis
    proof (cases k)
      case 0
      from True have "B - length acc = Suc 0" by arith
      with True 0 show ?thesis by (simp add: Let_def)
    next
      case (Suc j)
      with Cons.prems True have j: "j < length (batch_loop B False [] rest)"
        by (simp add: Let_def)
      from Cons.IH [OF Cons.prems(1) _ j] Cons.prems
      have "batch_loop B False [] rest ! j = take B (drop (j * B) rest)" by simp
      moreover have "drop (k * B) (acc @ idx # rest) = drop (j * B) rest"
      proof -
        have "k * B = length (acc @ [idx]) + j * B" using True Suc by simp
        then have "drop (k * B) ((acc @ [idx]) @ rest) = drop (j * B) rest"
          by (simp only: drop_append) simp
        then show ?thesis by simp
      qed
      ultimately show ?thesis using True Suc by (simp add: Let_def)
    qed
  next
    case False
    with Cons.prems have lt: "length (acc @ [idx]) < B" by simp
    from Cons.prems False have k: "k < length (batch_loop B False (acc @ [idx]) rest)"
      by (simp add: Let_def)
    from Cons.IH [OF Cons.prems(1) lt k] False show ?thesis by (simp add: Let_def)
  qed
qed

lemma take_upt_min: "take B [m..<n] = [m ..< min n (m + B)]"
  by (auto simp: min_def take_all_iff)


lemma ceil_div_not_dvd:
  fixes n B :: nat
  assumes "0 < B" "\<not> B dvd n"
  shows "(n + B - 1) div B = Suc (n div B)"
proof -
  from assms have r: "0 < n mod B" "n mod B < B"
    by (auto simp: dvd_eq_mod_eq_0)
  have e: "n + B - 1 = (n mod B + B - 1) + (n div B) * B"
    using r by (simp add: algebra_simps)
  have gen: "(a + c * B) div B = a div B + c" for a c :: nat
    using assms(1) by simp
  have "((n mod B + B - 1) + (n div B) * B) div B = (n mod B + B - 1) div B + n div B"
    by (rule gen)
  moreover have "(n mod B + B - 1) div B = 1"
    using r by (auto intro!: div_nat_eqI)
  ultimately have "((n mod B + B - 1) + (n div B) * B) div B = Suc (n div B)"
    by simp
  with e show ?thesis by (simp only:)
qed

lemma sequential_batches:
  fixes n B :: nat
  assumes B: "0 < B"
  defines "bs \<equiv> batch_loop B False [] [0..<n]"
  shows "concat bs = [0..<n]"
    and "length bs = (n + B - 1) div B"
    and "k < length bs \<Longrightarrow> bs ! k = [k * B ..< min n (k * B + B)]"
    and "\<not> B dvd n \<Longrightarrow> length (last bs) = n mod B"
proof -
  show c: "concat bs = [0..<n]" by (simp add: bs_def batch_loop_concat)
  show l: "length bs = (n + B - 1) div B"
    using batch_loop_length [OF B, of "[]" "[0..<n]"] B by (simp add: bs_def)
  show nth: "bs ! k = [k * B ..< min n (k * B + B)]" if "k < length bs" for k
    using batch_loop_nth [OF B, of "[]" k "[0..<n]"] B that
    by (simp add: bs_def take_upt_min)
  show "length (last bs) = n mod B" if nd: "\<not> B dvd n"
  proof -
    from ceil_div_not_dvd [OF B nd] l have len: "length bs = Suc (n div B)" by simp
    then have "bs \<noteq> []" by auto
    then have "last bs = bs ! (n div B)" using len by (simp add: last_conv_nth)
    also have "\<dots> = [n div B * B ..< min n (n div B * B + B)]"
      using nth [of "n div B"] len by simp
    finally have "length (last bs) = min n (n div B * B + B) - n div B * B" by simp
    moreover have "n div B * B + n mod B = n" by simp
    moreover have "n mod B < B" using B by simp
    ultimately show ?thesis by (simp add: min_def minus_div_mult_eq_mod)
  qed
qed

lemma val_loader_indices_Inr:
  "val_loader_indices perm n batch_size num_workers loader_kws = Inr bs \<longleftrightarrow>
     loader_args_ok batch_size num_workers loader_kws
     \<and> bs = batch_loop (nat batch_size) False [] [0..<n]"
  by (auto simp: val_loader_indices_def DataLoader_indices_def batch_sampler_def loader_args_ok_def)

lemma val_loader_Inr:
  "loader_args_ok batch_size num_workers loader_kws \<Longrightarrow>
   val_loader perm ds batch_size num_workers loader_kws
     = Inr (map (map (\<lambda>idx. ds ! idx)) (batch_loop (nat batch_size) False [] [0..<length ds]))"
  by (auto simp: val_loader_def DataLoader_def DataLoader_indices_def batch_sampler_def
      loader_args_ok_def)

lemma val_loader_items:
  "concat (map (map (\<lambda>idx. ds ! idx)) (batch_loop B False [] [0..<length ds])) = ds"
proof -
  have "concat (map (map (\<lambda>idx. ds ! idx)) (batch_loop B False [] [0..<length ds]))
      = map (\<lambda>idx. ds ! idx) (concat (batch_loop B False [] [0..<length ds]))"
    by (simp add: map_concat)
  also have "\<dots> = ds" by (simp add: batch_loop_concat map_nth)
  finally show ?thesis .
qed

text \<open>
  Claim C3. The loader is built with \<^verbatim>\<open>shuffle=False\<close> and \<^verbatim>\<open>drop_last=False\<close>. It is
  built, without raising, exactly when the batch size is positive, the number of workers
  is not negative and persistent workers are not asked for without workers. For every
  dataset of \<open>n\<close> items and every batch size \<open>B\<close> with which it is built, its batches of
  indices, put end to end, are \<open>0, ..., n - 1\<close> in increasing order; there are
  \<open>ceil(n / B)\<close> of them; batch \<open>k\<close> is the run of consecutive indices from \<open>k * B\<close> up to
  \<open>min n (k * B + B)\<close>; when \<open>B\<close> does not divide \<open>n\<close> the last batch has \<open>n mod B\<close>
  indices and is kept; the batches of items are the dataset's items at these indices. Ten
  items in batches of four give \<^verbatim>\<open>[0,1,2,3], [4,5,6,7], [8,9]\<close>.
\<close>

theorem val_loader_sequential:
  "(val_loader_indices perm (length ds) batch_size num_workers loader_kws = Inr bs \<longrightarrow>
       0 < batch_size
     \<and> val_loader perm ds batch_size num_workers loader_kws
         = Inr (map (map (\<lambda>idx. ds ! idx)) bs)
     \<and> concat bs = [0..<length ds]
     \<and> concat (map (map (\<lambda>idx. ds ! idx)) bs) = ds
     \<and> length bs = (length ds + nat batch_size - 1) div nat batch_size
     \<and> (\<forall>k<length bs. bs ! k
           = [k * nat batch_size ..< min (length ds) (k * nat batch_size + nat batch_size)])
     \<and> (\<not> nat batch_size dvd length ds \<longrightarrow>
           length (last bs) = length ds mod nat batch_size))
   \<and> ((\<exists>bs'. val_loader_indices perm (length ds) batch_size num_workers loader_kws = Inr bs')
        \<longleftrightarrow> loader_args_ok batch_size num_workers loader_kws)
   \<and> val_loader_indices perm 10 4 0 Map.empty = Inr [[0, 1, 2, 3], [4, 5, 6, 7], [8, 9]]"
proof (intro conjI impI)
  assume built: "val_loader_indices perm (length ds) batch_size num_workers loader_kws = Inr bs"
  then have ok: "loader_args_ok batch_size num_workers loader_kws"
    and bs: "bs = batch_loop (nat batch_size) False [] [0..<length ds]"
    by (simp_all add: val_loader_indices_Inr)
  from ok show pos: "0 < batch_size" by (simp add: loader_args_ok_def)
  then have B: "0 < nat batch_size" by simp
  note sb = sequential_batches [OF B, where n = "length ds"]
  show "val_loader perm ds batch_size num_workers loader_kws
         = Inr (map (map (\<lambda>idx. ds ! idx)) bs)"
    using val_loader_Inr [OF ok] bs by simp
  show "concat bs = [0..<length ds]" using sb(1) bs by simp
  show "concat (map (map (\<lambda>idx. ds ! idx)) bs) = ds"
    unfolding bs by (rule val_loader_items)
  show "length bs = (length ds + nat batch_size - 1) div nat batch_size"
    using sb(2) bs by simp
  show "\<forall>k<length bs. bs ! k
           = [k * nat batch_size ..< min (length ds) (k * nat batch_size + nat batch_size)]"
    using sb(3) bs by simp
  assume "\<not> nat batch_size dvd length ds"
  then show "length (last bs) = length ds mod nat batch_size"
    using sb(4) bs by simp
next
  show "(\<exists>bs'. val_loader_indices perm (length ds) batch_size num_workers loader_kws = Inr bs')
        \<longleftrightarrow> loader_args_ok batch_size num_workers loader_kws"
    by (simp add: val_loader_indices_Inr)
next
  show "val_loader_indices perm 10 4 0 Map.empty = Inr [[0, 1, 2, 3], [4, 5, 6, 7], [8, 9]]"
    by (simp add: val_loader_indices_def DataLoader_indices_def batch_sampler_def
        persistent_workers_of_def upt_rec [of 0 10] upt_rec [of _ 10] Let_def)
qed

theorem val_loader_sequential_witness:
  "val_loader_indices id 10 4 2 [''persistent_workers'' \<mapsto> (BoolVal True :: unit kw_value)]
     = Inr [[0, 1, 2, 3], [4, 5, 6, 7], [8, 9]]
   \<and> val_loader id ''abcdefghij'' 4 2 [''persistent_workers'' \<mapsto> (BoolVal True :: unit kw_value)]
     = Inr [''abcd'', ''efgh'', ''ij'']
   \<and> loader_args_ok 4 2 [''persistent_workers'' \<mapsto> (BoolVal True :: unit kw_value)]
   \<and> (10 + nat 4 - 1) div nat 4 = (3::nat) \<and> 10 mod nat 4 = (2::nat)"
proof -
  let ?kws = "[''persistent_workers'' \<mapsto> (BoolVal True :: unit kw_value)]"
  have i10: "val_loader_indices id 10 4 2 ?kws = Inr [[0, 1, 2, 3], [4, 5, 6, 7], [8, 9]]"
    by (simp add: val_loader_indices_def DataLoader_indices_def batch_sampler_def
        persistent_workers_of_def upt_rec [of _ 10] Let_def)
  have len: "length ''abcdefghij'' = 10" by simp
  have i: "val_loader_indices id (length ''abcdefghij'') 4 2 ?kws
      = Inr [[0, 1, 2, 3], [4, 5, 6, 7], [8, 9]]"
    unfolding len by (rule i10)
  note t = val_loader_sequential [of id "''abcdefghij''" 4 2 ?kws "[[0, 1, 2, 3], [4, 5, 6, 7], [8, 9]]"]
  from t i have v: "val_loader id ''abcdefghij'' 4 2 ?kws
      = Inr (map (map (\<lambda>idx. ''abcdefghij'' ! idx)) [[0, 1, 2, 3], [4, 5, 6, 7], [8, 9]])"
    by blast
  from t i have ok: "loader_args_ok 4 2 ?kws" by blast
  from i10 v ok show ?thesis by simp
qed

section \<open>Properties of the datasets and of the decoder's arguments\<close>

lemma ddpm_latent_tensor_Inr_iff:
  "ddpm_latent_tensor max_numel gen c = Inr t \<longleftrightarrow>
     latent_sizes_ok max_numel c
     \<and> t = \<lparr> shape = [nat (evaluation_n_samples c), 3, nat (data_image_size c),
                       nat (data_image_size c)],
              rows = map gen [0..<nat (evaluation_n_samples c)] \<rparr>"
proof -
  have p: "prod_list [evaluation_n_samples c, 3, data_image_size c, data_image_size c]
      = evaluation_n_samples c * 3 * data_image_size c * data_image_size c"
    by simp
  show ?thesis
    unfolding ddpm_latent_tensor_def randn_def latent_sizes_ok_def p
    by (auto simp: not_less not_le)
qed

lemma ddpm_latent_dataset_Inr_iff:
  "ddpm_latent_dataset max_numel gen c = Inr noise \<longleftrightarrow>
     latent_sizes_ok max_numel c \<and> noise = map gen [0..<nat (evaluation_n_samples c)]"
proof (cases "ddpm_latent_tensor max_numel gen c")
  case (Inl e)
  then have "\<not> latent_sizes_ok max_numel c"
    using ddpm_latent_tensor_Inr_iff [of max_numel gen c] by auto
  with Inl show ?thesis by (simp add: ddpm_latent_dataset_def)
next
  case (Inr t)
  then show ?thesis
    using ddpm_latent_tensor_Inr_iff [of max_numel gen c t]
    by (auto simp: ddpm_latent_dataset_def TensorDataset_def)
qed

text \<open>
  Claim C2. For every reconstruction dataset \<open>recons\<close> (the image dataset after
  subsampling) and every sample count \<open>N\<close> for which line 93 returns the noise, the
  noise dataset has \<open>N\<close> items, the paired dataset has \<open>min (len recons) N\<close> items, and
  item \<open>i\<close> of the paired dataset is the pair of item \<open>i\<close> of \<open>recons\<close> and item \<open>i\<close> of
  the noise: the pairing looks at positions only. The paired dataset of the run is this
  pairing of the subsampled images with the noise. Line 93 returns the noise exactly when
  \<^verbatim>\<open>torch.randn\<close> accepts the sizes.
\<close>

theorem pred_dataset_positional:
  "(ddpm_latent_dataset max_numel gen c = Inr noise \<longrightarrow>
       length noise = nat (evaluation_n_samples c)
     \<and> length (ZipDataset recons noise) = min (length recons) (nat (evaluation_n_samples c))
     \<and> (\<forall>i < length (ZipDataset recons noise).
          getitem (ZipDataset recons noise) i = Inr (recons ! i, noise ! i))
     \<and> pred_dataset images max_numel gen c
         = Inr (ZipDataset (ReconstructionDataset images (evaluation_n_samples c)) noise))
   \<and> ((\<exists>noise'. ddpm_latent_dataset max_numel gen c = Inr noise')
        \<longleftrightarrow> latent_sizes_ok max_numel c)"
proof (intro conjI impI)
  assume n: "ddpm_latent_dataset max_numel gen c = Inr noise"
  then have noise: "noise = map gen [0..<nat (evaluation_n_samples c)]"
    by (simp add: ddpm_latent_dataset_Inr_iff)
  then show "length noise = nat (evaluation_n_samples c)" by simp
  with noise show "length (ZipDataset recons noise)
      = min (length recons) (nat (evaluation_n_samples c))"
    by (simp add: ZipDataset_def)
  show "\<forall>i < length (ZipDataset recons noise).
          getitem (ZipDataset recons noise) i = Inr (recons ! i, noise ! i)"
    by (simp add: ZipDataset_def getitem_def)
  from n show "pred_dataset images max_numel gen c
         = Inr (ZipDataset (ReconstructionDataset images (evaluation_n_samples c)) noise)"
    by (simp add: pred_dataset_def)
next
  show "(\<exists>noise'. ddpm_latent_dataset max_numel gen c = Inr noise')
        \<longleftrightarrow> latent_sizes_ok max_numel c"
    by (simp add: ddpm_latent_dataset_Inr_iff)
qed

theorem pred_dataset_positional_witness:
  "ddpm_latent_dataset 1000 (\<lambda>i. 100 + i) (example_config\<lparr>evaluation_n_samples := 3\<rparr>)
     = Inr [100, 101, 102]
   \<and> ZipDataset ''ab'' [100, 101, 102 :: nat] = [(CHR ''a'', 100), (CHR ''b'', 101)]
   \<and> getitem (ZipDataset ''ab'' [100, 101, 102 :: nat]) 1 = Inr (CHR ''b'', 101)
   \<and> pred_dataset ''abcde'' 1000 (\<lambda>i. 100 + i) (example_config\<lparr>evaluation_n_samples := 3\<rparr>)
     = Inr [(CHR ''a'', 100), (CHR ''b'', 101), (CHR ''c'', 102)]
   \<and> latent_sizes_ok 1000 (example_config\<lparr>evaluation_n_samples := 3\<rparr>)"
proof -
  let ?c = "example_config\<lparr>evaluation_n_samples := 3\<rparr>"
  have n: "ddpm_latent_dataset 1000 (\<lambda>i. 100 + i) ?c = Inr [100, 101, 102]"
    by (simp add: example_config_def ddpm_latent_dataset_def ddpm_latent_tensor_def randn_def
        TensorDataset_def upt_rec [of _ 3])
  note t = pred_dataset_positional
    [of 1000 "\<lambda>i. 100 + i" ?c "[100, 101, 102]" "''ab''" "''abcde''"]
  from t n have p: "pred_dataset ''abcde'' 1000 (\<lambda>i. 100 + i) ?c
      = Inr (ZipDataset (ReconstructionDataset ''abcde'' (evaluation_n_samples ?c))
               [100, 101, 102])"
    by blast
  from t n have ok: "latent_sizes_ok 1000 ?c" by blast
  from n p ok show ?thesis
    by (simp add: ZipDataset_def getitem_def ReconstructionDataset_def)
qed

text \<open>
  Claim C10. Whatever the configuration, the decoder is built with three output channels
  and the noise tensor has three channels; \<^verbatim>\<open>n_channels\<close> is the decoder's input channel
  count and changing it changes nothing else, neither in the decoder's arguments nor in
  the noise tensor; the two spatial dimensions of the noise are \<^verbatim>\<open>image_size\<close>.
\<close>

theorem decoder_and_latent_channels:
  "(decoder_args c = Inr a \<longrightarrow> out_channels a = 3 \<and> in_channels a = data_n_channels c)
   \<and> (ddpm_latent_tensor max_numel gen c = Inr t \<longrightarrow>
        shape t = [nat (evaluation_n_samples c), 3, nat (data_image_size c), nat (data_image_size c)]
        \<and> item_shape t = [3, nat (data_image_size c), nat (data_image_size c)])
   \<and> decoder_args (c\<lparr>data_n_channels := k\<rparr>)
        = map_sum id (\<lambda>a. a\<lparr>in_channels := k\<rparr>) (decoder_args c)
   \<and> ddpm_latent_tensor max_numel gen (c\<lparr>data_n_channels := k\<rparr>)
        = ddpm_latent_tensor max_numel gen c"
proof (intro conjI impI)
  assume "decoder_args c = Inr a"
  then show "out_channels a = 3" "in_channels a = data_n_channels c"
    by (auto simp: decoder_args_def split: sum.splits)
next
  assume t: "ddpm_latent_tensor max_numel gen c = Inr t"
  then have "t = \<lparr> shape = [nat (evaluation_n_samples c), 3, nat (data_image_size c),
                           nat (data_image_size c)],
                  rows = map gen [0..<nat (evaluation_n_samples c)] \<rparr>"
    by (simp add: ddpm_latent_tensor_Inr_iff)
  then show "shape t = [nat (evaluation_n_samples c), 3, nat (data_image_size c), nat (data_image_size c)]"
    and "item_shape t = [3, nat (data_image_size c), nat (data_image_size c)]"
    by (auto simp: item_shape_def)
next
  show "decoder_args (c\<lparr>data_n_channels := k\<rparr>)
        = map_sum id (\<lambda>a. a\<lparr>in_channels := k\<rparr>) (decoder_args c)"
    by (simp add: decoder_args_def split: sum.splits)
next
  show "ddpm_latent_tensor max_numel gen (c\<lparr>data_n_channels := k\<rparr>)
        = ddpm_latent_tensor max_numel gen c"
    by (simp add: ddpm_latent_tensor_def)
qed

theorem decoder_and_latent_channels_witness:
  "decoder_args example_config
     = Inr \<lparr> in_channels = 6, model_channels = 128, out_channels = 3, num_res_blocks = 2,
             attention_resolutions = [16], channel_mult = [1, 2, 2, 3, 4],
             use_checkpoint = False, dropout = (), num_heads = 8 \<rparr>
   \<and> ddpm_latent_tensor 1000 (\<lambda>i. i) example_config
     = Inr \<lparr> shape = [10, 3, 2, 2], rows = [0, 1, 2, 3, 4, 5, 6, 7, 8, 9] \<rparr>
   \<and> decoder_args (example_config\<lparr>data_n_channels := 1\<rparr>)
     = Inr \<lparr> in_channels = 1, model_channels = 128, out_channels = 3, num_res_blocks = 2,
             attention_resolutions = [16], channel_mult = [1, 2, 2, 3, 4],
             use_checkpoint = False, dropout = (), num_heads = 8 \<rparr>"
  using decoder_and_latent_channels
    [of example_config
        "\<lparr> in_channels = 6, model_channels = 128, out_channels = 3, num_res_blocks = 2,
           attention_resolutions = [16], channel_mult = [1, 2, 2, 3, 4],
           use_checkpoint = False, dropout = (), num_heads = 8 \<rparr>"
        1000 "\<lambda>i. i" "\<lparr> shape = [10, 3, 2, 2], rows = [0, 1, 2, 3, 4, 5, 6, 7, 8, 9] \<rparr>" 1]
  by (simp add: example_config_def decoder_args_def parse_str_def py_int_eval
      ddpm_latent_tensor_def randn_def upt_rec [of _ 10])

section \<open>Properties of the device setup\<close>

text \<open>
  Claim C7. The setup is a function of the device string (and of what
  \<^verbatim>\<open>configure_device\<close> returns). On a string that starts with \<^verbatim>\<open>gpu\<close>, when
  \<^verbatim>\<open>configure_device\<close> returns the accelerator ids, the trainer gets exactly these ids
  and the loader gets \<^verbatim>\<open>persistent_workers=True\<close>; on \<^verbatim>\<open>tpu\<close> the trainer gets eight
  cores and the loader nothing; on every other string, \<^verbatim>\<open>cpu\<close> among them, both
  dictionaries stay empty and nothing is raised.
\<close>

theorem setup_devices_cases:
  "(prefix ''gpu'' device \<and> configure_device device = Inr (dev, devs) \<longrightarrow>
      setup_devices configure_device device
        = Inr ([''gpus'' \<mapsto> Devs devs], [''persistent_workers'' \<mapsto> BoolVal True]))
   \<and> setup_devices configure_device ''tpu'' = Inr ([''tpu_cores'' \<mapsto> IntVal 8], Map.empty)
   \<and> (\<not> prefix ''gpu'' device \<and> device \<noteq> ''tpu'' \<longrightarrow>
        setup_devices configure_device device = Inr (Map.empty, Map.empty))
   \<and> setup_devices configure_device ''cpu'' = Inr (Map.empty, Map.empty)"
  by (simp add: setup_devices_def)

theorem setup_devices_cases_witness:
  "setup_devices (\<lambda>d. Inr (''cuda:0'', [0, 1 :: int])) ''gpu:0,1''
     = Inr ([''gpus'' \<mapsto> Devs [0, 1]], [''persistent_workers'' \<mapsto> BoolVal True])
   \<and> setup_devices (\<lambda>d. Inr (''cuda:0'', [0, 1 :: int])) ''cuda'' = Inr (Map.empty, Map.empty)"
  using setup_devices_cases [of "''gpu:0,1''" "\<lambda>d. Inr (''cuda:0'', [0, 1 :: int])" "''cuda:0''" "[0, 1]"]
    setup_devices_cases [of "''cuda''" "\<lambda>d. Inr (''cuda:0'', [0, 1 :: int])"]
  by simp

section \<open>Properties of the EMA copy\<close>

lemma memo_ok_extend:
  assumes "memo_ok n0 h memo" "a < n0" "n0 \<le> length h"
  shows "memo_ok n0 (h @ [h ! a]) ((a, length h) # memo)"
  using assms by (auto simp: memo_ok_def nth_append)

lemma deepcopy_refs_inv:
  assumes "deepcopy_refs memo ps h = (ps', memo', h')"
    and "\<forall>p \<in> set ps. snd p < n0" and "n0 \<le> length h" and "memo_ok n0 h memo"
  shows "take (length h) h' = h \<and> length h \<le> length h' \<and> memo_ok n0 h' memo'
       \<and> list_all2 (copy_ok n0 h h') ps ps'"
  using assms
proof (induction ps arbitrary: memo h ps' memo' h')
  case Nil
  then show ?case by simp
next
  case (Cons p ps)
  obtain name a where p: "p = (name, a)" by (cases p)
  from Cons.prems(2) p have a: "a < n0" and rest: "\<forall>p \<in> set ps. snd p < n0" by auto
  show ?case
  proof (cases "map_of memo a")
    case (Some a')
    obtain qs m1 h1 where rec: "deepcopy_refs memo ps h = (qs, m1, h1)"
      by (cases "deepcopy_refs memo ps h") auto
    with Cons.prems(1) p Some have res: "ps' = (name, a') # qs" "memo' = m1" "h' = h1"
      by auto
    from Cons.IH [OF rec rest Cons.prems(3) Cons.prems(4)]
    have ih: "take (length h) h1 = h" "length h \<le> length h1" "memo_ok n0 h1 m1"
      "list_all2 (copy_ok n0 h h1) ps qs" by auto
    from Some have "(a, a') \<in> set memo" by (rule map_of_SomeD)
    with Cons.prems(4) have m: "n0 \<le> a'" "a' < length h" "h ! a' = h ! a"
      by (auto simp: memo_ok_def)
    from ih(1) m(2) have "h1 ! a' = h ! a'"
      by (metis nth_take)
    with m ih(2) have "copy_ok n0 h h1 (name, a) (name, a')"
      by (simp add: copy_ok_def)
    with ih res p show ?thesis by simp
  next
    case None
    let ?h = "h @ [h ! a]"
    let ?memo = "(a, length h) # memo"
    obtain qs m1 h1 where rec: "deepcopy_refs ?memo ps ?h = (qs, m1, h1)"
      by (cases "deepcopy_refs ?memo ps ?h") auto
    with Cons.prems(1) p None have res: "ps' = (name, length h) # qs" "memo' = m1" "h' = h1"
      by auto
    have le: "n0 \<le> length ?h" using Cons.prems(3) by simp
    from Cons.IH [OF rec rest le memo_ok_extend [OF Cons.prems(4) a Cons.prems(3)]]
    have ih: "take (length ?h) h1 = ?h" "length ?h \<le> length h1" "memo_ok n0 h1 m1"
      "list_all2 (copy_ok n0 ?h h1) ps qs" by auto
    have "take (length h) h1 = take (length h) (take (length ?h) h1)" by simp
    also have "\<dots> = take (length h) ?h" by (simp only: ih(1))
    finally have pre: "take (length h) h1 = h" by simp
    have old: "?h ! b = h ! b" if "b < n0" for b
      using that Cons.prems(3) by (simp add: nth_append)
    have "list_all2 (copy_ok n0 h h1) ps qs"
      using ih(4) rest
      by (auto simp: list_all2_conv_all_nth copy_ok_def old)
    moreover have "h1 ! length h = h ! a"
    proof -
      have "h1 ! length h = take (length ?h) h1 ! length h" by simp
      also have "\<dots> = ?h ! length h" by (simp only: ih(1))
      finally show ?thesis by simp
    qed
    then have "copy_ok n0 h h1 (name, a) (name, length h)"
      using ih(2) Cons.prems(3) by (simp add: copy_ok_def)
    ultimately show ?thesis using ih pre res p by simp
  qed
qed


lemma state_dict_copy:
  "list_all2 (copy_ok n0 h h') ps ps' \<Longrightarrow> state_dict h' ps' = state_dict h ps"
  by (induction rule: list_all2_induct) (auto simp: state_dict_def copy_ok_def split: prod.splits)

lemma copy_addresses:
  assumes "list_all2 (copy_ok n0 h h') ps ps'" "p' \<in> set ps'"
  shows "n0 \<le> snd p' \<and> snd p' < length h'"
  using assms by (auto simp: list_all2_conv_all_nth in_set_conv_nth copy_ok_def)

lemma state_dict_update_other:
  assumes "\<forall>p \<in> set m. snd p \<noteq> a"
  shows "state_dict (h[a := v]) m = state_dict h m"
  using assms by (auto simp: state_dict_def)

lemma set_param_other:
  assumes "set (map snd m1) \<inter> set (map snd m2) = {}"
  shows "state_dict (set_param h m1 name v) m2 = state_dict h m2"
proof (cases "map_of m1 name")
  case None
  then show ?thesis by (simp add: set_param_def)
next
  case (Some a)
  then have "(name, a) \<in> set m1" by (rule map_of_SomeD)
  then have "a \<in> set (map snd m1)" by force
  with assms have "\<forall>p \<in> set m2. snd p \<noteq> a" by auto
  with Some show ?thesis by (simp add: set_param_def state_dict_update_other)
qed

text \<open>
  Claim C9. The EMA decoder is \<^verbatim>\<open>copy.deepcopy(decoder)\<close>. Right after the copy, with
  no checkpoint restored yet, the copy has the same parameter names and the same value
  for each as the online decoder, whose own values are unchanged; the two decoders share
  no tensor, every tensor of the copy being newly allocated; so assigning to any
  parameter of one of them leaves every parameter of the other as it was.
\<close>

theorem deepcopy_independent:
  assumes "allocated m h" and "deepcopy m h = (m', h')"
  shows "state_dict h' m' = state_dict h m
       \<and> state_dict h' m = state_dict h m
       \<and> allocated m' h'
       \<and> set (map snd m') \<inter> set (map snd m) = {}
       \<and> (\<forall>name v. state_dict (set_param h' m' name v) m = state_dict h' m)
       \<and> (\<forall>name v. state_dict (set_param h' m name v) m' = state_dict h' m')"
proof -
  obtain memo' where rec: "deepcopy_refs [] m h = (m', memo', h')"
    using assms(2) by (auto simp: deepcopy_def split: prod.splits)
  from assms(1) have al: "\<forall>p \<in> set m. snd p < length h"
    by (auto simp: allocated_def list_all_iff)
  have "memo_ok (length h) h []" by (simp add: memo_ok_def)
  from deepcopy_refs_inv [OF rec al order_refl this]
  have pre: "take (length h) h' = h" and len: "length h \<le> length h'"
    and cp: "list_all2 (copy_ok (length h) h h') m m'" by auto
  have eq: "state_dict h' m' = state_dict h m" using cp by (rule state_dict_copy)
  have old: "h' ! a = h ! a" if "a < length h" for a
    using pre that by (metis nth_take)
  have same: "state_dict h' m = state_dict h m"
    using al old by (auto simp: state_dict_def)
  have new: "length h \<le> snd p' \<and> snd p' < length h'" if "p' \<in> set m'" for p'
    using copy_addresses [OF cp that] .
  have alloc: "allocated m' h'"
    using new by (auto simp: allocated_def list_all_iff)
  have disj: "set (map snd m') \<inter> set (map snd m) = {}"
    using new al by fastforce
  then have disj': "set (map snd m) \<inter> set (map snd m') = {}" by blast
  have mut1: "state_dict (set_param h' m' name v) m = state_dict h' m" for name v
    using disj by (rule set_param_other)
  have mut2: "state_dict (set_param h' m name v) m' = state_dict h' m'" for name v
    using disj' by (rule set_param_other)
  from eq same alloc disj mut1 mut2 show ?thesis by simp
qed

theorem deepcopy_independent_witness:
  "allocated [(''conv.weight'', 0), (''conv.bias'', 1), (''out.weight'', 0)] [10 :: int, 20]
   \<and> deepcopy [(''conv.weight'', 0), (''conv.bias'', 1), (''out.weight'', 0)] [10 :: int, 20]
       = ([(''conv.weight'', 2), (''conv.bias'', 3), (''out.weight'', 2)], [10, 20, 10, 20])
   \<and> state_dict [10, 20, 10, 20 :: int] [(''conv.weight'', 2), (''conv.bias'', 3), (''out.weight'', 2)]
       = [(''conv.weight'', 10), (''conv.bias'', 20), (''out.weight'', 10)]
   \<and> state_dict (set_param [10, 20, 10, 20 :: int]
         [(''conv.weight'', 2), (''conv.bias'', 3), (''out.weight'', 2)] ''conv.bias'' 7)
         [(''conv.weight'', 0), (''conv.bias'', 1), (''out.weight'', 0)]
       = [(''conv.weight'', 10), (''conv.bias'', 20), (''out.weight'', 10)]"
  using deepcopy_independent
    [of "[(''conv.weight'', 0), (''conv.bias'', 1), (''out.weight'', 0)]" "[10 :: int, 20]"
        "[(''conv.weight'', 2), (''conv.bias'', 3), (''out.weight'', 2)]" "[10, 20, 10, 20]"]
  by (simp add: allocated_def deepcopy_def state_dict_def set_param_def)

section \<open>Properties of checkpoint loading\<close>

lemma restore_Nil [simp]: "restore snapshot [] = []"
  by (simp add: restore_def)

lemma restore_Cons [simp]:
  "restore snapshot (p # ps) =
     (fst p, case map_of snapshot (fst p) of None \<Rightarrow> snd p | Some t' \<Rightarrow> t') # restore snapshot ps"
  by (simp add: restore_def case_prod_beta)

lemma restore_append: "restore snapshot (xs @ ys) = restore snapshot xs @ restore snapshot ys"
  by (simp add: restore_def)

lemma restore_absent:
  "\<forall>p \<in> set live. map_of snapshot (fst p) = None \<Longrightarrow> restore snapshot live = live"
  by (induction live) simp_all

lemma restore_names: "map fst (restore snapshot live) = map fst live"
  by (induction live) simp_all

lemma restore_present:
  "\<forall>p \<in> set live. map_of snapshot (fst p) \<noteq> None \<Longrightarrow>
   \<forall>q \<in> set (restore snapshot live). map_of snapshot (fst q) = Some (snd q)"
  by (induction live) auto

lemma compat_input_same_dims:
  "dims input_param = dims live_param \<Longrightarrow> compat_input live_param input_param = Inr input_param"
  by (auto simp: compat_input_def)

lemma load_from_state_dict_same_dims:
  "\<forall>p \<in> set live. \<forall>t'. map_of snapshot (fst p) = Some t' \<longrightarrow> dims t' = dims (snd p) \<Longrightarrow>
   load_from_state_dict snapshot live
     = Inr ([], missing_keys live snapshot, restore snapshot live)"
proof (induction live)
  case Nil
  then show ?case by (simp add: missing_keys_def)
next
  case (Cons p live)
  obtain key t where p: "p = (key, t)" by (cases p)
  note pr = Cons.prems [rule_format]
  have rest:
    "\<forall>q \<in> set live. \<forall>t'. map_of snapshot (fst q) = Some t' \<longrightarrow> dims t' = dims (snd q)"
  proof (intro ballI allI impI)
    fix q t' assume "q \<in> set live" "map_of snapshot (fst q) = Some t'"
    then show "dims t' = dims (snd q)" by (intro pr) simp_all
  qed
  note ih = Cons.IH [OF rest]
  show ?case
  proof (cases "map_of snapshot key")
    case None
    with ih p show ?thesis by (simp add: missing_keys_def)
  next
    case (Some t')
    have "dims t' = dims (snd p)"
      by (rule pr [of p t']) (simp_all add: p Some)
    then have "dims t' = dims t" by (simp add: p)
    with ih p Some show ?thesis
      by (simp add: compat_input_same_dims missing_keys_def)
  qed
qed

lemma load_from_state_dict_missing:
  "load_from_state_dict snapshot live = Inr (mismatched, missing, ps) \<Longrightarrow>
   missing = missing_keys live snapshot"
proof (induction live arbitrary: mismatched missing ps)
  case Nil
  then show ?case by (simp add: missing_keys_def)
next
  case (Cons p live)
  obtain key t where p: "p = (key, t)" by (cases p)
  from Cons.prems p obtain mm ms qs where
    rec: "load_from_state_dict snapshot live = Inr (mm, ms, qs)"
    by (cases "load_from_state_dict snapshot live")
       (auto split: option.splits sum.splits)
  from Cons.IH [OF rec] have ms: "ms = missing_keys live snapshot" .
  show ?case
  proof (cases "map_of snapshot key")
    case None
    with Cons.prems p rec ms show ?thesis
      by (auto simp: missing_keys_def)
  next
    case (Some t')
    with Cons.prems p rec ms show ?thesis
      by (auto simp: missing_keys_def split: sum.splits if_splits)
  qed
qed

lemma load_state_dict_relaxed_same_dims:
  assumes "\<forall>p \<in> set live. \<forall>t'. map_of snapshot (fst p) = Some t' \<longrightarrow> dims t' = dims (snd p)"
  shows "load_state_dict live snapshot False = Inr (restore snapshot live)"
proof -
  from load_from_state_dict_same_dims [OF assms]
  show ?thesis by (simp add: load_state_dict_def)
qed

lemma load_state_dict_strict_missing:
  assumes "missing_keys live snapshot \<noteq> []"
  shows "\<exists>e. load_state_dict live snapshot True = Inl e"
proof (cases "load_from_state_dict snapshot live")
  case (Inl e)
  then show ?thesis by (simp add: load_state_dict_def)
next
  case (Inr r)
  obtain mismatched missing ps where r: "r = (mismatched, missing, ps)" by (cases r)
  with Inr have "missing = missing_keys live snapshot"
    by (simp add: load_from_state_dict_missing)
  with assms Inr r show ?thesis by (simp add: load_state_dict_def)
qed

text \<open>
  Claim C1, as amended. The wrapper is loaded with \<^verbatim>\<open>strict=False\<close>. When the snapshot
  has every diffusion-network parameter, with the shape of the live one, and none of the
  VAE's, the load returns: the diffusion-network parameters hold the snapshot's tensors and
  the VAE's parameters are as constructed. A snapshot that omits diffusion-network
  parameters is loaded as well: whichever parameters the snapshot omits, when those it has
  are of the live shape the load returns, every omitted parameter keeping its constructed
  tensor. A strict load, as of the VAE, raises when an expected parameter is absent.
\<close>

theorem load_ddpm_wrapper_relaxed:
  "((\<forall>p \<in> set diffusion_params.
        \<exists>t'. map_of snapshot (fst p) = Some t' \<and> dims t' = dims (snd p))
      \<and> (\<forall>p \<in> set vae_params. map_of snapshot (fst p) = None) \<longrightarrow>
      (\<exists>loaded. load_ddpm_wrapper diffusion_params vae_params snapshot = Inr (loaded @ vae_params)
         \<and> map fst loaded = map fst diffusion_params
         \<and> (\<forall>q \<in> set loaded. map_of snapshot (fst q) = Some (snd q))))
   \<and> ((\<forall>p \<in> set (diffusion_params @ vae_params).
          \<forall>t'. map_of snapshot (fst p) = Some t' \<longrightarrow> dims t' = dims (snd p)) \<longrightarrow>
        load_ddpm_wrapper diffusion_params vae_params snapshot
          = Inr (restore snapshot (diffusion_params @ vae_params)))
   \<and> (missing_keys vae_live vae_snapshot \<noteq> [] \<longrightarrow>
        (\<exists>e. load_vae vae_live vae_snapshot = Inl e))"
proof (intro conjI impI)
  assume h: "(\<forall>p \<in> set diffusion_params.
        \<exists>t'. map_of snapshot (fst p) = Some t' \<and> dims t' = dims (snd p))
      \<and> (\<forall>p \<in> set vae_params. map_of snapshot (fst p) = None)"
  then have d: "\<forall>p \<in> set diffusion_params.
        \<exists>t'. map_of snapshot (fst p) = Some t' \<and> dims t' = dims (snd p)"
    and v: "\<forall>p \<in> set vae_params. map_of snapshot (fst p) = None"
    by blast+
  have same: "\<forall>p \<in> set (diffusion_params @ vae_params).
      \<forall>t'. map_of snapshot (fst p) = Some t' \<longrightarrow> dims t' = dims (snd p)"
  proof (intro ballI allI impI)
    fix p t'
    assume p: "p \<in> set (diffusion_params @ vae_params)"
      and s: "map_of snapshot (fst p) = Some t'"
    from p consider "p \<in> set diffusion_params" | "p \<in> set vae_params" by auto
    then show "dims t' = dims (snd p)"
    proof cases
      case 1
      with d obtain t'' where "map_of snapshot (fst p) = Some t''" "dims t'' = dims (snd p)"
        by blast
      with s show ?thesis by simp
    next
      case 2
      with v s show ?thesis by simp
    qed
  qed
  from d have pres: "\<forall>p \<in> set diffusion_params. map_of snapshot (fst p) \<noteq> None"
    by fastforce
  from v have "restore snapshot vae_params = vae_params"
    by (rule restore_absent)
  with load_state_dict_relaxed_same_dims [OF same]
  have "load_ddpm_wrapper diffusion_params vae_params snapshot
      = Inr (restore snapshot diffusion_params @ vae_params)"
    by (simp add: load_ddpm_wrapper_def restore_append)
  with restore_present [OF pres] restore_names [of snapshot diffusion_params]
  show "\<exists>loaded. load_ddpm_wrapper diffusion_params vae_params snapshot = Inr (loaded @ vae_params)
         \<and> map fst loaded = map fst diffusion_params
         \<and> (\<forall>q \<in> set loaded. map_of snapshot (fst q) = Some (snd q))"
    by blast
next
  assume "\<forall>p \<in> set (diffusion_params @ vae_params).
          \<forall>t'. map_of snapshot (fst p) = Some t' \<longrightarrow> dims t' = dims (snd p)"
  then show "load_ddpm_wrapper diffusion_params vae_params snapshot
          = Inr (restore snapshot (diffusion_params @ vae_params))"
    unfolding load_ddpm_wrapper_def by (rule load_state_dict_relaxed_same_dims)
next
  assume "missing_keys vae_live vae_snapshot \<noteq> []"
  then show "\<exists>e. load_vae vae_live vae_snapshot = Inl e"
    unfolding load_vae_def by (rule load_state_dict_strict_missing)
qed

text \<open>
  Claim C1, on a snapshot that omits a diffusion-network parameter: the snapshot below
  has the decoder's output weight and lacks its output bias, and the load returns, the
  bias keeping its constructed value.
\<close>

theorem load_ddpm_wrapper_omitted_diffusion_parameter:
  "load_ddpm_wrapper
     [(''online_network.decoder.out.weight'', \<lparr> dims = [2], elems = [1, 2 :: int] \<rparr>),
      (''online_network.decoder.out.bias'', \<lparr> dims = [1], elems = [0] \<rparr>)]
     [(''vae.enc.weight'', \<lparr> dims = [1], elems = [5] \<rparr>)]
     [(''online_network.decoder.out.weight'', \<lparr> dims = [2], elems = [7, 8] \<rparr>)]
   = Inr [(''online_network.decoder.out.weight'', \<lparr> dims = [2], elems = [7, 8] \<rparr>),
          (''online_network.decoder.out.bias'', \<lparr> dims = [1], elems = [0] \<rparr>),
          (''vae.enc.weight'', \<lparr> dims = [1], elems = [5] \<rparr>)]"
  by (simp add: load_ddpm_wrapper_def load_state_dict_def compat_input_def)

theorem load_ddpm_wrapper_relaxed_witness:
  "load_ddpm_wrapper
     [(''net.w'', \<lparr> dims = [2], elems = [1, 2 :: int] \<rparr>)]
     [(''vae.w'', \<lparr> dims = [1], elems = [5] \<rparr>)]
     [(''net.w'', \<lparr> dims = [2], elems = [7, 8] \<rparr>)]
   = Inr ([(''net.w'', \<lparr> dims = [2], elems = [7, 8] \<rparr>)]
          @ [(''vae.w'', \<lparr> dims = [1], elems = [5] \<rparr>)])
   \<and> load_ddpm_wrapper
     [(''net.w'', \<lparr> dims = [2], elems = [1, 2 :: int] \<rparr>)]
     [(''vae.w'', \<lparr> dims = [1], elems = [5] \<rparr>)]
     []
   = Inr [(''net.w'', \<lparr> dims = [2], elems = [1, 2] \<rparr>), (''vae.w'', \<lparr> dims = [1], elems = [5] \<rparr>)]
   \<and> load_vae [(''w'', \<lparr> dims = [1], elems = [5 :: int] \<rparr>)] [] = Inl RuntimeError"
proof -
  let ?D = "[(''net.w'', \<lparr> dims = [2], elems = [1, 2 :: int] \<rparr>)]"
  let ?V = "[(''vae.w'', \<lparr> dims = [1], elems = [5 :: int] \<rparr>)]"
  let ?S = "[(''net.w'', \<lparr> dims = [2], elems = [7, 8 :: int] \<rparr>)]"
  let ?W = "[(''w'', \<lparr> dims = [1], elems = [5 :: int] \<rparr>)]"
  have h1: "(\<forall>p \<in> set ?D. \<exists>t'. map_of ?S (fst p) = Some t' \<and> dims t' = dims (snd p))
      \<and> (\<forall>p \<in> set ?V. map_of ?S (fst p) = None)"
    by simp
  have h2: "\<forall>p \<in> set (?D @ ?V). \<forall>t'. map_of [] (fst p) = Some t' \<longrightarrow> dims t' = dims (snd p)"
    by simp
  have h3: "missing_keys ?W [] \<noteq> []"
    by (simp add: missing_keys_def)
  note t = load_ddpm_wrapper_relaxed [of ?D ?S ?V ?W "[]"]
  note t' = load_ddpm_wrapper_relaxed [of ?D "[]" ?V ?W "[]"]
  from t h1 have "\<exists>loaded. load_ddpm_wrapper ?D ?V ?S = Inr (loaded @ ?V)
      \<and> map fst loaded = map fst ?D \<and> (\<forall>q \<in> set loaded. map_of ?S (fst q) = Some (snd q))"
    by blast
  then obtain loaded where l: "load_ddpm_wrapper ?D ?V ?S = Inr (loaded @ ?V)"
    "map fst loaded = map fst ?D" "\<forall>q \<in> set loaded. map_of ?S (fst q) = Some (snd q)"
    by blast
  have a: "load_ddpm_wrapper ?D ?V ?S = Inr (?S @ ?V)"
    by (simp add: load_ddpm_wrapper_def load_state_dict_def compat_input_def)
  from t' h2 have "load_ddpm_wrapper ?D ?V [] = Inr (restore [] (?D @ ?V))" by blast
  then have b: "load_ddpm_wrapper ?D ?V [] = Inr (?D @ ?V)" by simp
  from t h3 obtain e where "load_vae ?W [] = Inl e" by blast
  moreover have "load_vae ?W [] = Inl RuntimeError"
    by (simp add: load_vae_def load_state_dict_def unexpected_keys_def)
  ultimately have c: "load_vae ?W [] = Inl RuntimeError" by simp
  from a b c l(1) show ?thesis by simp
qed

section \<open>Properties of the predict run\<close>

lemma predict_step_ok:
  "\<forall>x \<in> set xs. f x = Inr (g x) \<Longrightarrow> predict_step f xs = Inr (map g xs)"
  by (induction xs) simp_all

lemma trainer_predict_ok:
  "\<forall>b \<in> set bs. \<forall>x \<in> set b. f x = Inr (g x) \<Longrightarrow>
   trainer_predict f bs w =
     Inr \<lparr> calls = calls w + length bs,
           written = written w @
             zip [length (written w) ..< length (written w) + length (concat bs)]
                 (map g (concat bs)) \<rparr>"
proof (induction bs arbitrary: w)
  case Nil
  then show ?case by simp
next
  case (Cons b bs)
  from Cons.prems have b: "predict_step f b = Inr (map g b)"
    by (simp add: predict_step_ok)
  from Cons.prems have rest: "\<forall>b \<in> set bs. \<forall>x \<in> set b. f x = Inr (g x)" by simp
  let ?n = "length (written w)"
  let ?w = "write_on_batch_end w (map g b)"
  have lw: "length (written ?w) = ?n + length b"
    by (simp add: write_on_batch_end_def)
  have split: "[?n ..< ?n + (length b + length (concat bs))]
      = [?n ..< ?n + length b] @ [?n + length b ..< ?n + length b + length (concat bs)]"
    by (metis add.assoc le_add1 upt_add_eq_append)
  have "zip [?n ..< ?n + (length b + length (concat bs))] (map g b @ map g (concat bs))
      = zip [?n ..< ?n + length b] (map g b)
        @ zip [?n + length b ..< ?n + length b + length (concat bs)] (map g (concat bs))"
    unfolding split by (rule zip_append) simp
  with Cons.IH [OF rest, of ?w] b lw show ?case
    by (simp add: write_on_batch_end_def)
qed

text \<open>
  Claim C8. A run with \<^verbatim>\<open>n_samples=10\<close>, \<^verbatim>\<open>batch_size=4\<close> and \<^verbatim>\<open>device="cpu"\<close>, with a
  number of workers that is not negative and an image size that \<^verbatim>\<open>torch.randn\<close> accepts,
  whose configuration parses, whose image source holds at least ten images and whose
  predict operation fails on no pair: the paired dataset has ten items, the loader yields
  three batches whose sizes add up to ten, the trainer calls the writer three times, once
  for each batch, and the writer has written the indices \<open>0, ..., 9\<close>, each once and in
  this order, index \<open>i\<close> holding the reconstruction of pair \<open>i\<close>.
\<close>

theorem generate_recons_ten_by_four:
  assumes c: "evaluation_n_samples c = 10" "evaluation_batch_size c = 4"
      "evaluation_device c = ''cpu''"
    and workers: "0 \<le> evaluation_workers c"
    and sizes: "latent_sizes_ok max_numel c"
    and args: "decoder_args c = Inr a"
    and images: "10 \<le> length images"
    and f: "\<forall>x \<in> set (ZipDataset (ReconstructionDataset images 10) (map gen [0..<10])).
              f x = Inr (g x)"
  shows "\<exists>pred loader w.
           pred_dataset images max_numel gen c = Inr pred \<and> length pred = 10
         \<and> val_loader perm pred 4 (evaluation_workers c) (Map.empty :: string \<rightharpoonup> 'd kw_value)
             = Inr loader
         \<and> concat loader = pred
         \<and> length loader = 3 \<and> sum_list (map length loader) = 10
         \<and> generate_recons images max_numel gen perm
              (configure_device :: string \<Rightarrow> py_error + ('x \<times> 'd)) accelerators_ok f c = Inr w
         \<and> calls w = 3
         \<and> map fst (written w) = [0..<10]
         \<and> written w = zip [0..<10] (map g pred)"
proof -
  define pred where "pred = ZipDataset (ReconstructionDataset images 10) (map gen [0..<10])"
  define loader where
    "loader = map (map (\<lambda>idx. pred ! idx)) (batch_loop (nat 4) False [] [0..<length pred])"
  define w where "w = \<lparr> calls = 3, written = zip [0..<10] (map g pred) \<rparr>"
  let ?kws = "Map.empty :: string \<rightharpoonup> 'd kw_value"
  have len: "length pred = 10"
    using images by (simp add: pred_def ZipDataset_def ReconstructionDataset_def)
  have "ddpm_latent_dataset max_numel gen c = Inr (map gen [0..<10])"
    using sizes c by (simp add: ddpm_latent_dataset_Inr_iff)
  then have pd: "pred_dataset images max_numel gen c = Inr pred"
    using c by (simp add: pred_dataset_def pred_def)
  have sd: "setup_devices configure_device (evaluation_device c) = Inr (Map.empty, ?kws)"
    using c by (simp add: setup_devices_def)
  have ok: "loader_args_ok 4 (evaluation_workers c) ?kws"
    using workers by (simp add: loader_args_ok_def persistent_workers_of_def)
  have vl: "val_loader perm pred 4 (evaluation_workers c) ?kws = Inr loader"
    unfolding loader_def using ok by (rule val_loader_Inr)
  have cl: "concat loader = pred"
    unfolding loader_def by (rule val_loader_items)
  have "length (batch_loop (nat 4) False [] [0..<length pred])
      = (length ([] :: nat list) + length [0..<length pred] + nat 4 - 1) div nat 4"
    by (rule batch_loop_length) simp_all
  then have ll: "length loader = 3" using len by (simp add: loader_def)
  have "sum_list (map length loader) = length (concat loader)"
    by (simp add: length_concat)
  then have sl: "sum_list (map length loader) = 10" using cl len by simp
  have all: "\<forall>b \<in> set loader. \<forall>x \<in> set b. f x = Inr (g x)"
  proof (intro ballI)
    fix b x assume "b \<in> set loader" "x \<in> set b"
    then have "x \<in> set (concat loader)" by auto
    then have "x \<in> set pred" by (simp only: cl)
    with f show "f x = Inr (g x)" by (simp add: pred_def)
  qed
  have tr: "Trainer accelerators_ok (Map.empty :: string \<rightharpoonup> 'd kw_value) = Inr ()"
    by (simp add: Trainer_def)
  have tp: "trainer_predict f loader \<lparr> calls = 0, written = [] \<rparr> = Inr w"
    using trainer_predict_ok [OF all, of "\<lparr> calls = 0, written = [] \<rparr>"]
    by (simp add: cl ll len w_def)
  have gr: "generate_recons images max_numel gen perm configure_device accelerators_ok f c
      = Inr w"
    using args pd sd vl tr tp c by (simp add: generate_recons_def)
  have cw: "calls w = 3" and ww: "written w = zip [0..<10] (map g pred)"
    by (simp_all add: w_def)
  have idx: "map fst (written w) = [0..<10]"
    using len by (simp add: ww)
  from pd len vl cl ll sl gr cw idx ww show ?thesis by blast
qed

theorem generate_recons_ten_by_four_witness:
  "generate_recons [0, 1, 2, 3, 4, 5, 6, 7, 8, 9, 10, 11 :: nat] 1000 (\<lambda>i. 100 + i) id
     (\<lambda>d. Inl RuntimeError :: py_error + (unit \<times> int list)) (\<lambda>kws. False)
     (\<lambda>x. Inr (fst x + snd x)) example_config
   = Inr \<lparr> calls = 3,
           written = [(0, 100), (1, 102), (2, 104), (3, 106), (4, 108),
                      (5, 110), (6, 112), (7, 114), (8, 116), (9, 118)] \<rparr>"
proof -
  let ?images = "[0, 1, 2, 3, 4, 5, 6, 7, 8, 9, 10, 11 :: nat]"
  let ?a = "\<lparr> in_channels = 6, model_channels = 128, out_channels = 3, num_res_blocks = 2,
             attention_resolutions = [16], channel_mult = [1, 2, 2, 3, 4],
             use_checkpoint = False, dropout = (), num_heads = 8 \<rparr>"
  have c: "evaluation_n_samples example_config = 10" "evaluation_batch_size example_config = 4"
      "evaluation_device example_config = ''cpu''"
    by (simp_all add: example_config_def)
  have workers: "0 \<le> evaluation_workers example_config"
    by (simp add: example_config_def)
  have sizes: "latent_sizes_ok 1000 example_config"
    by (simp add: example_config_def latent_sizes_ok_def)
  have args: "decoder_args example_config = Inr ?a"
    by (simp add: example_config_def decoder_args_def parse_str_def py_int_eval)
  have images: "10 \<le> length ?images" by simp
  have f: "\<forall>x \<in> set (ZipDataset (ReconstructionDataset ?images 10) (map (\<lambda>i. 100 + i) [0..<10])).
             (\<lambda>x. Inr (fst x + snd x) :: py_error + nat) x = Inr ((\<lambda>x. fst x + snd x) x)"
    by simp
  from generate_recons_ten_by_four [OF c workers sizes args images f,
      of id "\<lambda>d. Inl RuntimeError :: py_error + (unit \<times> int list)" "\<lambda>kws. False"]
  obtain pred w where
    pd: "pred_dataset ?images 1000 (\<lambda>i. 100 + i) example_config = Inr pred"
    and w: "generate_recons ?images 1000 (\<lambda>i. 100 + i) id
       (\<lambda>d. Inl RuntimeError :: py_error + (unit \<times> int list)) (\<lambda>kws. False)
       (\<lambda>x. Inr (fst x + snd x)) example_config = Inr w"
      "calls w = 3" "written w = zip [0..<10] (map (\<lambda>x. fst x + snd x) pred)"
    by blast
  have "pred_dataset ?images 1000 (\<lambda>i. 100 + i) example_config
      = Inr [(0, 100), (1, 101), (2, 102), (3, 103), (4, 104),
             (5, 105), (6, 106), (7, 107), (8, 108), (9, 109)]"
    by (simp add: example_config_def pred_dataset_def ddpm_latent_dataset_def
        ddpm_latent_tensor_def randn_def TensorDataset_def ZipDataset_def
        ReconstructionDataset_def upt_rec [of _ 10])
  with pd have "pred = [(0, 100), (1, 101), (2, 102), (3, 103), (4, 104),
             (5, 105), (6, 106), (7, 107), (8, 108), (9, 109)]" by simp
  with w(3) have "written w = [(0, 100), (1, 102), (2, 104), (3, 106), (4, 108),
                      (5, 110), (6, 112), (7, 114), (8, 116), (9, 118)]"
    by (simp add: upt_rec [of _ 10])
  with w(1) w(2) show ?thesis by (cases w) simp
qed

end
